theory Spec2Isabelle
  imports Main "HOL-Library.Word" "HOL-Library.Sublist"
begin

section \<open>nfsusage: data model\<close>

text \<open>
  The program is one Go file, \<^verbatim>\<open>main.go\<close>. Go's \<^verbatim>\<open>int64\<close> is a 64-bit word:
  \<open>+\<close>, \<open>-\<close> and unary minus wrap around, comparisons are signed (\<open>\<le>s\<close>, \<open>sint\<close>).
  A Go \<^verbatim>\<open>string\<close> is a byte sequence, here a \<open>string\<close> (a list of 8-bit characters).
  A Go \<^verbatim>\<open>map[string]int64\<close> is a finite map \<open>string \<rightharpoonup> int64\<close>; a nil map reads like
  the empty one.
\<close>

type_synonym int64 = "64 word"

record UsageEntry =
  Timestamp :: int64
  Mounts :: "string \<rightharpoonup> int64"
  Total :: int64

text \<open>
  A \<^verbatim>\<open>for k, v := range m\<close> loop visits every key of the map once, in an order the Go
  runtime chooses anew for each loop. The model of a function with such a loop takes the
  order of the visit as an argument \<open>ks\<close>; \<open>range_order m ks\<close> says that \<open>ks\<close> is an order
  the runtime can choose for \<open>m\<close>, and \<open>range_map m ks\<close> is the sequence of key/value pairs
  the loop body then sees.
\<close>

definition range_order :: "('k \<rightharpoonup> 'v) \<Rightarrow> 'k list \<Rightarrow> bool" where
  "range_order m ks \<longleftrightarrow> distinct ks \<and> set ks = dom m"

definition range_map :: "('k \<rightharpoonup> 'v) \<Rightarrow> 'k list \<Rightarrow> ('k \<times> 'v) list" where
  "range_map m ks = List.map_filter (\<lambda>k. map_option (Pair k) (m k)) ks"

text \<open>The sum of the values of a map, in \<^verbatim>\<open>int64\<close> arithmetic (the order does not matter).\<close>

definition sum_values :: "(string \<rightharpoonup> int64) \<Rightarrow> int64" where
  "sum_values m = (\<Sum>k\<in>dom m. the (m k))"

text \<open>The same sum in the integers, where nothing wraps around.\<close>

definition exact_sum_values :: "(string \<rightharpoonup> int64) \<Rightarrow> int" where
  "exact_sum_values m = (\<Sum>k\<in>dom m. sint (the (m k)))"

section \<open>Snapshot mounts and filterEntry\<close>

text \<open>\<^verbatim>\<open>strings.Contains(s, substr)\<close>: \<open>substr\<close> occurs in \<open>s\<close> as a contiguous run of bytes.\<close>

fun Contains :: "string \<Rightarrow> string \<Rightarrow> bool" where
  "Contains [] substr = (substr = [])"
| "Contains (c # s) substr = (prefix substr (c # s) \<or> Contains s substr)"

definition isSnapshotMount :: "string \<Rightarrow> bool" where
  "isSnapshotMount mountPoint = Contains mountPoint ''.snapshot''"

text \<open>
  \<^verbatim>\<open>filterEntry\<close>: a fresh entry with the timestamp of \<open>entry\<close>, an empty map and total 0;
  the loop over \<^verbatim>\<open>entry.Mounts\<close> copies every pair whose mount is not a snapshot mount and
  adds its bytes to the total.
\<close>

fun filterEntry_loop :: "(string \<times> int64) list \<Rightarrow> UsageEntry \<Rightarrow> UsageEntry" where
  "filterEntry_loop [] filtered = filtered"
| "filterEntry_loop ((mount, bytes) # rest) filtered =
     filterEntry_loop rest
       (if \<not> isSnapshotMount mount
        then filtered\<lparr>Mounts := (Mounts filtered)(mount \<mapsto> bytes),
                      Total := Total filtered + bytes\<rparr>
        else filtered)"

definition filterEntry :: "string list \<Rightarrow> UsageEntry \<Rightarrow> UsageEntry" where
  "filterEntry ks entry =
     filterEntry_loop (range_map (Mounts entry) ks)
       \<lparr>Timestamp = Timestamp entry, Mounts = Map.empty, Total = 0\<rparr>"

section \<open>Library functions the program calls\<close>

text \<open>
  \<^verbatim>\<open>strings.Fields\<close> splits a string around runs of white space, as \<^verbatim>\<open>unicode.IsSpace\<close>
  defines it: the six ASCII characters tab, line feed, vertical tab, form feed, carriage
  return and space, and the runes U+0085, U+00A0, U+1680, U+2000 to U+200A, U+2028,
  U+2029, U+202F, U+205F and U+3000, which are two or three bytes in UTF-8. Every such
  encoding starts with a byte from \<open>0xC2\<close> on, and Go's decoder consumes a byte from \<open>0xC0\<close> on
  only as the first byte of a rune, so matching the encodings on the bytes is what the
  rune-wise scan of Go does. \<open>space_width s\<close> is the number of bytes of the white-space
  rune \<open>s\<close> starts with, 0 when it starts with none.
\<close>

definition asciiSpace :: "char \<Rightarrow> bool" where
  "asciiSpace c \<longleftrightarrow>
     c = CHR 0x09 \<or> c = CHR 0x0A \<or> c = CHR 0x0B \<or> c = CHR 0x0C \<or> c = CHR 0x0D \<or> c = CHR 0x20"

definition isSpace2 :: "char \<Rightarrow> char \<Rightarrow> bool" where
  "isSpace2 a b \<longleftrightarrow> a = CHR 0xC2 \<and> (b = CHR 0x85 \<or> b = CHR 0xA0)"

definition isSpace3 :: "char \<Rightarrow> char \<Rightarrow> char \<Rightarrow> bool" where
  "isSpace3 a b c \<longleftrightarrow>
     a = CHR 0xE1 \<and> b = CHR 0x9A \<and> c = CHR 0x80 \<or>
     a = CHR 0xE2 \<and> b = CHR 0x80 \<and> (0x80::nat) \<le> of_char c \<and> of_char c \<le> (0x8A::nat) \<or>
     a = CHR 0xE2 \<and> b = CHR 0x80 \<and> (c = CHR 0xA8 \<or> c = CHR 0xA9 \<or> c = CHR 0xAF) \<or>
     a = CHR 0xE2 \<and> b = CHR 0x81 \<and> c = CHR 0x9F \<or>
     a = CHR 0xE3 \<and> b = CHR 0x80 \<and> c = CHR 0x80"

fun space_width :: "string \<Rightarrow> nat" where
  "space_width (a # b # c # s) =
     (if asciiSpace a then 1 else if isSpace2 a b then 2 else if isSpace3 a b c then 3 else 0)"
| "space_width [a, b] = (if asciiSpace a then 1 else if isSpace2 a b then 2 else 0)"
| "space_width [a] = (if asciiSpace a then 1 else 0)"
| "space_width [] = 0"

text \<open>\<open>Fields_from field s\<close>: the fields of \<open>s\<close>, when \<open>field\<close> is the field read so far.\<close>

function Fields_from :: "string \<Rightarrow> string \<Rightarrow> string list" where
  "Fields_from field [] = (if field = [] then [] else [field])"
| "Fields_from field (c # s) =
     (if space_width (c # s) = 0 then Fields_from (field @ [c]) s
      else (if field = [] then [] else [field]) @
           Fields_from [] (drop (space_width (c # s)) (c # s)))"
  by pat_completeness auto
termination
  by (relation "measure (\<lambda>(field, s). length s)") auto

definition Fields :: "string \<Rightarrow> string list" where
  "Fields s = Fields_from [] s"

text \<open>\<^verbatim>\<open>strings.Split(s, sep)\<close> for a separator of one byte: one more piece than separators.\<close>

fun Split :: "string \<Rightarrow> char \<Rightarrow> string list" where
  "Split [] sep = [[]]"
| "Split (c # s) sep =
     (if c = sep then [] # Split s sep
      else (case Split s sep of [] \<Rightarrow> [[c]] | piece # pieces \<Rightarrow> (c # piece) # pieces))"

text \<open>\<^verbatim>\<open>strings.Join(elems, sep)\<close>.\<close>

fun Join :: "string list \<Rightarrow> string \<Rightarrow> string" where
  "Join [] sep = []"
| "Join [a] sep = a"
| "Join (a # b # elems) sep = a @ sep @ Join (b # elems) sep"

text \<open>
  \<^verbatim>\<open>strconv.ParseInt(s, 10, 64)\<close>: an optional sign, then \<^verbatim>\<open>ParseUint\<close> on the rest (at least
  one character, decimal digits only, read from the left, with a range error as soon as
  the value leaves 64 bits), then the check against the range of \<^verbatim>\<open>int64\<close>.
\<close>

datatype num_error = ErrSyntax | ErrRange

definition isDigit :: "char \<Rightarrow> bool" where
  "isDigit c \<longleftrightarrow> (0x30::nat) \<le> of_char c \<and> of_char c \<le> (0x39::nat)"

definition digit_val :: "char \<Rightarrow> nat" where
  "digit_val c = of_char c - 0x30"

fun ParseUint_loop :: "nat \<Rightarrow> string \<Rightarrow> num_error + nat" where
  "ParseUint_loop n [] = Inr n"
| "ParseUint_loop n (c # s) =
     (if \<not> isDigit c then Inl ErrSyntax
      else if n * 10 + digit_val c > 2 ^ 64 - 1 then Inl ErrRange
      else ParseUint_loop (n * 10 + digit_val c) s)"

definition ParseUint :: "string \<Rightarrow> num_error + nat" where
  "ParseUint s = (if s = [] then Inl ErrSyntax else ParseUint_loop 0 s)"

definition ParseInt :: "string \<Rightarrow> num_error + int64" where
  "ParseInt s =
     (if s = [] then Inl ErrSyntax
      else
        let neg = (hd s = CHR ''-'');
            s' = (if hd s = CHR ''+'' \<or> hd s = CHR ''-'' then tl s else s)
        in case ParseUint s' of
             Inl ErrSyntax \<Rightarrow> Inl ErrSyntax
           | Inl ErrRange \<Rightarrow> Inl ErrRange
           | Inr un \<Rightarrow>
               if \<not> neg \<and> un \<ge> 2 ^ 63 then Inl ErrRange
               else if neg \<and> un > 2 ^ 63 then Inl ErrRange
               else Inr (if neg then - of_nat un else of_nat un))"

section \<open>Errors\<close>

text \<open>
  The errors of the operating system and of the JSON library are values the environment
  hands in; \<open>ErrNotExist\<close> is the one \<^verbatim>\<open>os.IsNotExist\<close> recognises. The other three are the
  errors \<^verbatim>\<open>getDFBytes\<close> makes itself.
\<close>

datatype error =
    ErrNotExist
  | OSError string
  | JSONError string
  | UnexpectedDFOutput
  | UnexpectedDFFormat
  | ParseUsedBytes num_error

definition IsNotExist :: "error \<Rightarrow> bool" where
  "IsNotExist err \<longleftrightarrow> err = ErrNotExist"

section \<open>Mount discovery\<close>

text \<open>
  \<^verbatim>\<open>getNFSMounts\<close> opens \<^verbatim>\<open>/proc/mounts\<close> and reads it with a \<^verbatim>\<open>bufio.Scanner\<close>. Its input
  here is what the file system answers: the error of \<^verbatim>\<open>os.Open\<close>, or the lines the scanner
  delivers (\<^verbatim>\<open>scanner.Text()\<close> of each successful \<^verbatim>\<open>Scan\<close>) with the scanner's final error.
\<close>

datatype mount_table = OpenFails error | Scanned "string list" "error option"

fun getNFSMounts_loop :: "string list \<Rightarrow> string list \<Rightarrow> string list" where
  "getNFSMounts_loop [] mounts = mounts"
| "getNFSMounts_loop (text # rest) mounts =
     (let fields = Fields text in
      getNFSMounts_loop rest
        (if length fields \<ge> 3 then
           (let fsType = fields ! 2; mountPoint = fields ! 1 in
            if (fsType = ''nfs'' \<or> fsType = ''nfs4'') \<and> \<not> isSnapshotMount mountPoint
            then mounts @ [mountPoint] else mounts)
         else mounts))"

definition getNFSMounts :: "mount_table \<Rightarrow> string list \<times> error option" where
  "getNFSMounts table =
     (case table of
        OpenFails err \<Rightarrow> ([], Some err)
      | Scanned lines err \<Rightarrow> (getNFSMounts_loop lines [], err))"

section \<open>Usage sampling\<close>

text \<open>
  \<^verbatim>\<open>getDFBytes\<close> runs \<^verbatim>\<open>df -B1 mountPoint\<close>; \<open>df mountPoint\<close> is what \<^verbatim>\<open>cmd.Output()\<close> returns,
  the captured standard output or the error of the command.
\<close>

definition getDFBytes :: "(string \<Rightarrow> error + string) \<Rightarrow> string \<Rightarrow> error + int64" where
  "getDFBytes df mountPoint =
     (case df mountPoint of
        Inl err \<Rightarrow> Inl err
      | Inr output \<Rightarrow>
          let lines = Split output (CHR 0x0A) in
          if length lines < 2 then Inl UnexpectedDFOutput
          else
            let dataLine = Join (tl lines) '' '';
                fields = Fields dataLine
            in if length fields < 3 then Inl UnexpectedDFFormat
               else (case ParseInt (fields ! 2) of
                       Inl err \<Rightarrow> Inl (ParseUsedBytes err)
                     | Inr usedBytes \<Rightarrow> Inr usedBytes))"

section \<open>Formatting\<close>

text \<open>
  \<^verbatim>\<open>formatBytes\<close> converts to \<^verbatim>\<open>float64\<close>, divides by \<^verbatim>\<open>float64(GiB)\<close> or \<^verbatim>\<open>float64(TiB)\<close> and
  prints with \<^verbatim>\<open>%.2f\<close>. All three steps are exact arithmetic on integers:
  \<^item> \<^verbatim>\<open>float64(n)\<close> is \<open>n\<close> rounded to 53 significant bits, ties to even (an integer again);
  \<^item> the divisors are \<open>2 ^ 30\<close> and \<open>2 ^ 40\<close>, and a binary floating-point number divided by a
    power of two far from the exponent limits is the exact quotient;
  \<^item> \<^verbatim>\<open>%.2f\<close> prints the decimal expansion of the exact value rounded to two places, ties
    to even, with a minus sign for a negative value (also when the digits are all 0).
  \<open>Sprintf_2f a b\<close> is \<^verbatim>\<open>fmt.Sprintf("%.2f", a/b)\<close> for \<^verbatim>\<open>float64\<close> values \<open>a\<close> and \<open>b\<close>, \<open>b\<close> a power
  of two.
\<close>

definition round_half_even :: "int \<Rightarrow> int \<Rightarrow> int" where
  "round_half_even a q =
     (let d = a div q; r = a mod q
      in if 2 * r < q then d else if 2 * r > q then d + 1 else if even d then d else d + 1)"

fun bitlen :: "nat \<Rightarrow> nat" where
  "bitlen n = (if n = 0 then 0 else Suc (bitlen (n div 2)))"

declare bitlen.simps [simp del]

definition float64_of_int :: "int \<Rightarrow> int" where
  "float64_of_int n =
     (let e = bitlen (nat \<bar>n\<bar>) - 53
      in sgn n * (round_half_even \<bar>n\<bar> (2 ^ e) * 2 ^ e))"

definition float64 :: "int64 \<Rightarrow> int" where
  "float64 x = float64_of_int (sint x)"

definition digit_char :: "nat \<Rightarrow> char" where
  "digit_char d = ''0123456789'' ! d"

fun decimal :: "nat \<Rightarrow> string" where
  "decimal n = (if n < 10 then [digit_char n] else decimal (n div 10) @ [digit_char (n mod 10)])"

declare decimal.simps [simp del]

definition Sprintf_2f :: "int \<Rightarrow> int \<Rightarrow> string" where
  "Sprintf_2f a b =
     (let h = nat (round_half_even (\<bar>a\<bar> * 100) b)
      in (if a < 0 then ''-'' else []) @ decimal (h div 100) @ ''.'' @
         [digit_char (h mod 100 div 10), digit_char (h mod 10)])"

definition GiB :: int64 where
  "GiB = 1024 * 1024 * 1024"

definition TiB :: int64 where
  "TiB = 1024 * GiB"

definition formatBytes :: "int64 \<Rightarrow> string" where
  "formatBytes bytes =
     (if TiB \<le>s bytes then Sprintf_2f (float64 bytes) (float64 TiB) @ '' TiB''
      else Sprintf_2f (float64 bytes) (float64 GiB) @ '' GiB'')"

definition formatDiff :: "int64 \<Rightarrow> string" where
  "formatDiff diff =
     (if 0 \<le>s diff then ''+'' @ formatBytes diff else ''-'' @ formatBytes (- diff))"

text \<open>
  The rule of the specification, on byte counts that are integers of any size: values
  from \<open>2 ^ 40\<close> on render as \<^verbatim>\<open>"%.2f TiB"\<close>, all others as \<^verbatim>\<open>"%.2f GiB"\<close>; a difference renders
  as its sign and its magnitude formatted by this rule. These two follow the words of
  the specification, to be compared with \<open>formatBytes\<close> and \<open>formatDiff\<close>.
\<close>

definition spec_formatBytes :: "int \<Rightarrow> string" where
  "spec_formatBytes n =
     (if 2 ^ 40 \<le> n then Sprintf_2f (float64_of_int n) (2 ^ 40) @ '' TiB''
      else Sprintf_2f (float64_of_int n) (2 ^ 30) @ '' GiB'')"

definition spec_formatDiff :: "int \<Rightarrow> string" where
  "spec_formatDiff d = (if 0 \<le> d then ''+'' else ''-'') @ spec_formatBytes \<bar>d\<bar>"

section \<open>Reporter\<close>

text \<open>
  Both printing functions first collect what they print and then write it with
  \<^verbatim>\<open>fmt.Printf\<close>, one line per collected row in the order collected, padded to the widest
  cell of each column. The model is the collected rows; the padding is not modelled.
  \<open>printCurrent\<close> prints a mount and its formatted bytes per line; \<open>printComparison\<close>
  builds values of its local type \<^verbatim>\<open>row\<close>, with the fields mount, oldest, current, diff.
\<close>

definition printCurrent :: "string list \<Rightarrow> UsageEntry \<Rightarrow> (string \<times> string) list" where
  "printCurrent ks entry =
     map (\<lambda>(mount, bytes). (mount, formatBytes bytes)) (range_map (Mounts entry) ks) @
     [(''total'', formatBytes (Total entry))]"

datatype row = Row string string string string

text \<open>The first loop of \<^verbatim>\<open>printComparison\<close>; a mount missing from a Go map reads as 0.\<close>

fun rows_current :: "UsageEntry \<Rightarrow> (string \<times> int64) list \<Rightarrow> row list \<Rightarrow> row list" where
  "rows_current oldest [] rows = rows"
| "rows_current oldest ((mount, currBytes) # rest) rows =
     (let oldBytes = (case Mounts oldest mount of None \<Rightarrow> 0 | Some b \<Rightarrow> b);
          diff = currBytes - oldBytes
      in rows_current oldest rest
           (rows @ [Row mount (formatBytes oldBytes) (formatBytes currBytes) (formatDiff diff)]))"

text \<open>The second loop: the mounts of the oldest entry that the current entry lacks.\<close>

fun rows_removed :: "UsageEntry \<Rightarrow> (string \<times> int64) list \<Rightarrow> row list \<Rightarrow> row list" where
  "rows_removed current [] rows = rows"
| "rows_removed current ((mount, oldBytes) # rest) rows =
     rows_removed current rest
       (if Mounts current mount = None
        then rows @ [Row mount (formatBytes oldBytes) ''(removed)'' (formatDiff (- oldBytes))]
        else rows)"

definition printComparison ::
    "string list \<Rightarrow> string list \<Rightarrow> UsageEntry \<Rightarrow> UsageEntry \<Rightarrow> row list" where
  "printComparison ks_current ks_oldest oldest current =
     (let rows = rows_current oldest (range_map (Mounts current) ks_current) [];
          rows = rows_removed current (range_map (Mounts oldest) ks_oldest) rows;
          diff = Total current - Total oldest
      in rows @ [Row ''total'' (formatBytes (Total oldest)) (formatBytes (Total current))
                   (formatDiff diff)])"

section \<open>History store and main\<close>

text \<open>
  Everything \<^verbatim>\<open>main\<close> asks of the outside is a field of the environment: the flags, the
  working directory, \<^verbatim>\<open>filepath.Join\<close>, the mount table, the \<^verbatim>\<open>df\<close> command, the clock, the
  file system, the two functions of \<^verbatim>\<open>encoding/json\<close> (\<^verbatim>\<open>json.Unmarshal\<close> into a slice of
  entries, \<^verbatim>\<open>json.MarshalIndent\<close> with prefix \<^verbatim>\<open>""\<close> and indent of two spaces), and the orders
  in which the runtime visits the maps in the \<^verbatim>\<open>range\<close> loops of \<^verbatim>\<open>filterEntry\<close>,
  \<^verbatim>\<open>printCurrent\<close> and \<^verbatim>\<open>printComparison\<close>.
\<close>

record env =
  flag_file :: string
  flag_compare :: bool
  Getwd :: "error + string"
  filepath_Join :: "string \<Rightarrow> string \<Rightarrow> string"
  proc_mounts :: mount_table
  df :: "string \<Rightarrow> error + string"
  Now_Unix :: int64
  ReadFile :: "string \<Rightarrow> error + string"
  Unmarshal :: "string \<Rightarrow> error + UsageEntry list"
  MarshalIndent :: "UsageEntry list \<Rightarrow> error + string"
  WriteFile :: "string \<Rightarrow> string \<Rightarrow> error option"
  range_filter :: "string list"
  range_print :: "string list"
  range_current :: "string list"
  range_oldest :: "string list"

definition loadEntries :: "env \<Rightarrow> string \<Rightarrow> error + UsageEntry list" where
  "loadEntries e filePath =
     (case ReadFile e filePath of
        Inl err \<Rightarrow> Inl err
      | Inr data \<Rightarrow>
          (case Unmarshal e data of
             Inl err \<Rightarrow> Inl err
           | Inr entries \<Rightarrow> Inr entries))"

text \<open>
  \<open>saveEntries\<close> returns the error, if any, and the write it made: the path and the data
  handed to \<^verbatim>\<open>os.WriteFile\<close>, when that call succeeded.
\<close>

definition saveEntries ::
    "env \<Rightarrow> string \<Rightarrow> UsageEntry list \<Rightarrow> error option \<times> (string \<times> string) option" where
  "saveEntries e filePath entries =
     (case MarshalIndent e entries of
        Inl err \<Rightarrow> (Some err, None)
      | Inr data \<Rightarrow>
          (case WriteFile e filePath data of
             Some err \<Rightarrow> (Some err, None)
           | None \<Rightarrow> (None, Some (filePath, data))))"

text \<open>What a run leaves behind: the lines on standard error, the report on standard
  output, the file written, and the exit code.\<close>

datatype message =
    ErrorGettingCwd error
  | ErrorGettingMounts error
  | NoNFSMountsFound
  | WarningDF string error
  | ErrorLoading error
  | ErrorSaving error

datatype report = Current "(string \<times> string) list" | Comparison "row list"

record outcome =
  exit_code :: nat
  stderr :: "message list"
  stdout :: "report option"
  written :: "(string \<times> string) option"

text \<open>The loop of \<^verbatim>\<open>main\<close> over the discovered mounts: a failing mount is logged and skipped.\<close>

fun sample_loop ::
    "(string \<Rightarrow> error + string) \<Rightarrow> string list \<Rightarrow> UsageEntry \<times> message list \<Rightarrow>
     UsageEntry \<times> message list" where
  "sample_loop d [] (currentEntry, log) = (currentEntry, log)"
| "sample_loop d (mount # rest) (currentEntry, log) =
     (case getDFBytes d mount of
        Inl err \<Rightarrow> sample_loop d rest (currentEntry, log @ [WarningDF mount err])
      | Inr bytes \<Rightarrow>
          sample_loop d rest
            (currentEntry\<lparr>Mounts := (Mounts currentEntry)(mount \<mapsto> bytes),
                           Total := Total currentEntry + bytes\<rparr>, log))"

definition sample :: "env \<Rightarrow> string list \<Rightarrow> UsageEntry \<times> message list" where
  "sample e nfsMounts =
     sample_loop (df e) nfsMounts
       (\<lparr>Timestamp = Now_Unix e, Mounts = Map.empty, Total = 0\<rparr>, [])"

definition resolve_filePath :: "env \<Rightarrow> error + string" where
  "resolve_filePath e =
     (if flag_file e = [] then
        (case Getwd e of
           Inl err \<Rightarrow> Inl err
         | Inr cwd \<Rightarrow> Inr (filepath_Join e cwd ''nfsusage.json''))
      else Inr (flag_file e))"

text \<open>
  The load step of \<^verbatim>\<open>main\<close>: an error other than "the file does not exist" is fatal; with
  that one, \<^verbatim>\<open>loadEntries\<close> has returned nil, the empty history.
\<close>

definition load_history :: "env \<Rightarrow> string \<Rightarrow> error + UsageEntry list" where
  "load_history e filePath =
     (case loadEntries e filePath of
        Inl err \<Rightarrow> if \<not> IsNotExist err then Inl err else Inr []
      | Inr entries \<Rightarrow> Inr entries)"

definition exits :: "nat \<Rightarrow> message list \<Rightarrow> outcome" where
  "exits code log = \<lparr>exit_code = code, stderr = log, stdout = None, written = None\<rparr>"

definition main :: "env \<Rightarrow> outcome" where
  "main e =
     (case resolve_filePath e of
        Inl err \<Rightarrow> exits 1 [ErrorGettingCwd err]
      | Inr filePath \<Rightarrow>
     (case getNFSMounts (proc_mounts e) of
        (nfsMounts, Some err) \<Rightarrow> exits 1 [ErrorGettingMounts err]
      | (nfsMounts, None) \<Rightarrow>
     if length nfsMounts = 0 then exits 0 [NoNFSMountsFound]
     else
       (case sample e nfsMounts of (currentEntry, log) \<Rightarrow>
       (case load_history e filePath of
          Inl err \<Rightarrow> exits 1 (log @ [ErrorLoading err])
        | Inr loaded \<Rightarrow>
       (let entries = loaded @ [currentEntry] in
        case saveEntries e filePath entries of
          (Some err, w) \<Rightarrow> exits 1 (log @ [ErrorSaving err])
        | (None, w) \<Rightarrow>
            \<lparr>exit_code = 0, stderr = log,
             stdout = Some
               (if flag_compare e \<and> length entries > 1
                then Comparison
                       (printComparison (range_current e) (range_oldest e)
                          (filterEntry (range_filter e) (entries ! 0)) currentEntry)
                else Current (printCurrent (range_print e) currentEntry)),
             written = w\<rparr>)))))"

section \<open>Vocabulary of the claims about parsing\<close>

text \<open>
  A decimal literal of a 64-bit integer: an optional sign, at least one decimal digit and
  nothing else, the value within the range of \<^verbatim>\<open>int64\<close>. \<open>int64_literal s\<close> is the value of
  such a literal and \<open>None\<close> for every other string. A parse error of \<^verbatim>\<open>getDFBytes\<close> is one
  of the three errors it makes from the output of the command.
\<close>

definition decimal_value :: "string \<Rightarrow> nat" where
  "decimal_value digits = foldl (\<lambda>n c. n * 10 + digit_val c) 0 digits"

definition int64_literal :: "string \<Rightarrow> int option" where
  "int64_literal s =
     (let neg = (s \<noteq> [] \<and> hd s = CHR ''-'');
          digits = (if s \<noteq> [] \<and> (hd s = CHR ''+'' \<or> hd s = CHR ''-'') then tl s else s);
          v = (if neg then - int (decimal_value digits) else int (decimal_value digits))
      in if digits \<noteq> [] \<and> list_all isDigit digits \<and> - (2 ^ 63) \<le> v \<and> v < 2 ^ 63
         then Some v else None)"

fun is_parse_error :: "error \<Rightarrow> bool" where
  "is_parse_error UnexpectedDFOutput = True"
| "is_parse_error UnexpectedDFFormat = True"
| "is_parse_error (ParseUsedBytes err) = True"
| "is_parse_error err = False"

section \<open>Example inputs\<close>

text \<open>A history entry with a live mount and a snapshot mount, the total their sum.\<close>

definition entry_with_snapshot :: UsageEntry where
  "entry_with_snapshot =
     \<lparr>Timestamp = 1700000000,
      Mounts = [''/mnt/a'' \<mapsto> 5368709120, ''/mnt/a/.snapshot'' \<mapsto> 1073741824],
      Total = 6442450944\<rparr>"

text \<open>
  Two entries as a history file can hold them, each with the total equal to the sum of
  its mounts: one with a negative byte count, one whose sum has left the range of
  \<^verbatim>\<open>int64\<close> and wrapped around (\<open>2 ^ 63 - 1\<close> plus 1 is \<open>- (2 ^ 63)\<close>).
\<close>

definition entry_negative :: UsageEntry where
  "entry_negative =
     \<lparr>Timestamp = 1700000000, Mounts = [''/mnt/a/.snapshot'' \<mapsto> - 1], Total = - 1\<rparr>"

definition entry_wrapped :: UsageEntry where
  "entry_wrapped =
     \<lparr>Timestamp = 1700000000,
      Mounts = [''/mnt/a/.snapshot'' \<mapsto> 9223372036854775807, ''/mnt/b'' \<mapsto> 1],
      Total = - 9223372036854775808\<rparr>"

text \<open>
  The output of \<^verbatim>\<open>df -B1 /mnt/a\<close> for a device whose long name wraps the data line: the
  header, the device on a line of its own, the numbers on the next.
\<close>

definition df_output_wrapped :: string where
  "df_output_wrapped =
     ''Filesystem 1B-blocks Used Available Use% Mounted on'' @ [CHR 0x0A] @
     ''filer01.example.org:/export/a'' @ [CHR 0x0A] @
     ''  10737418240 1073741824 9663676416 10% /mnt/a'' @ [CHR 0x0A]"

text \<open>The comparison scenario of the specification: \<^verbatim>\<open>/mnt/a\<close> has grown, \<^verbatim>\<open>/mnt/b\<close> is new.\<close>

definition scenario_oldest :: UsageEntry where
  "scenario_oldest =
     \<lparr>Timestamp = 1700000000, Mounts = [''/mnt/a'' \<mapsto> 1073741824], Total = 1073741824\<rparr>"

definition scenario_current :: UsageEntry where
  "scenario_current =
     \<lparr>Timestamp = 1700086400,
      Mounts = [''/mnt/a'' \<mapsto> 2147483648, ''/mnt/b'' \<mapsto> 1073741824],
      Total = 3221225472\<rparr>"

text \<open>An oldest entry with a mount that the current entry of the scenario no longer has.\<close>

definition scenario_oldest_gone :: UsageEntry where
  "scenario_oldest_gone =
     \<lparr>Timestamp = 1700000000,
      Mounts = [''/mnt/a'' \<mapsto> 1073741824, ''/mnt/gone'' \<mapsto> 2147483648],
      Total = 3221225472\<rparr>"

text \<open>
  Environments of three runs with \<^verbatim>\<open>-file /var/lib/nfsusage.json -compare\<close> on a host with
  one NFS mount and a local disk, \<^verbatim>\<open>df\<close> reporting 1 GiB used. In the first run the history
  file does not exist. In the second it holds one entry, written before snapshot mounts
  were excluded. In the third the mount table lists \<^verbatim>\<open>/mnt/a\<close> twice (a second mount over
  the same directory). The JSON library is represented by what it returns in the run.
\<close>

definition entry_first_run :: UsageEntry where
  "entry_first_run =
     \<lparr>Timestamp = 1700086400, Mounts = [''/mnt/a'' \<mapsto> 1073741824], Total = 1073741824\<rparr>"

definition json_first_run :: string where
  \<open>json_first_run =
     Join [''['',
           ''  {'',
           ''    "timestamp": 1700086400,'',
           ''    "mounts": {'',
           ''      "/mnt/a": 1073741824'',
           ''    },'',
           ''    "total": 1073741824'',
           ''  }'',
           '']''] [CHR 0x0A]\<close>

definition first_run_env :: env where
  "first_run_env =
     \<lparr>flag_file = ''/var/lib/nfsusage.json'',
      flag_compare = True,
      Getwd = Inr ''/root'',
      filepath_Join = (\<lambda>dir name. dir @ ''/'' @ name),
      proc_mounts = Scanned [''/dev/sda1 / ext4 rw,relatime 0 0'',
                             ''filer01.example.org:/export/a /mnt/a nfs4 rw,relatime 0 0''] None,
      df = (\<lambda>mountPoint. Inr df_output_wrapped),
      Now_Unix = 1700086400,
      ReadFile = (\<lambda>name. Inl ErrNotExist),
      Unmarshal = (\<lambda>data. Inr []),
      MarshalIndent = (\<lambda>entries. Inr json_first_run),
      WriteFile = (\<lambda>name data. None),
      range_filter = [],
      range_print = [''/mnt/a''],
      range_current = [''/mnt/a''],
      range_oldest = []\<rparr>"

definition entry_stored :: UsageEntry where
  "entry_stored =
     \<lparr>Timestamp = 1700000000,
      Mounts = [''/mnt/a'' \<mapsto> 536870912, ''/mnt/a/.snapshot'' \<mapsto> 1073741824],
      Total = 1610612736\<rparr>"

definition json_stored :: string where
  \<open>json_stored =
     Join [''['',
           ''  {'',
           ''    "timestamp": 1700000000,'',
           ''    "mounts": {'',
           ''      "/mnt/a": 536870912,'',
           ''      "/mnt/a/.snapshot": 1073741824'',
           ''    },'',
           ''    "total": 1610612736'',
           ''  }'',
           '']''] [CHR 0x0A]\<close>

definition json_second_run :: string where
  \<open>json_second_run =
     Join [''['',
           ''  {'',
           ''    "timestamp": 1700000000,'',
           ''    "mounts": {'',
           ''      "/mnt/a": 536870912,'',
           ''      "/mnt/a/.snapshot": 1073741824'',
           ''    },'',
           ''    "total": 1610612736'',
           ''  },'',
           ''  {'',
           ''    "timestamp": 1700086400,'',
           ''    "mounts": {'',
           ''      "/mnt/a": 1073741824'',
           ''    },'',
           ''    "total": 1073741824'',
           ''  }'',
           '']''] [CHR 0x0A]\<close>

definition second_run_env :: env where
  "second_run_env =
     first_run_env
       \<lparr>ReadFile := (\<lambda>name. Inr json_stored),
        Unmarshal := (\<lambda>data. Inr [entry_stored]),
        MarshalIndent := (\<lambda>entries. Inr json_second_run),
        range_filter := [''/mnt/a/.snapshot'', ''/mnt/a''],
        range_oldest := [''/mnt/a'']\<rparr>"

definition json_duplicate_run :: string where
  \<open>json_duplicate_run =
     Join [''['',
           ''  {'',
           ''    "timestamp": 1700086400,'',
           ''    "mounts": {'',
           ''      "/mnt/a": 1073741824'',
           ''    },'',
           ''    "total": 2147483648'',
           ''  }'',
           '']''] [CHR 0x0A]\<close>

definition duplicate_mount_env :: env where
  "duplicate_mount_env =
     first_run_env
       \<lparr>proc_mounts :=
          Scanned [''/dev/sda1 / ext4 rw,relatime 0 0'',
                   ''filer01.example.org:/export/a /mnt/a nfs4 rw,relatime 0 0'',
                   ''filer01.example.org:/export/a /mnt/a nfs4 rw,relatime 0 0''] None,
        MarshalIndent := (\<lambda>entries. Inr json_duplicate_run)\<rparr>"

section \<open>Properties of the string functions\<close>

lemma Contains_iff: "Contains s substr \<longleftrightarrow> (\<exists>p q. s = p @ substr @ q)"
proof (induction s)
  case Nil
  then show ?case by auto
next
  case (Cons c s)
  show ?case
  proof
    assume "Contains (c # s) substr"
    then consider "prefix substr (c # s)" | "Contains s substr" by auto
    then show "\<exists>p q. c # s = p @ substr @ q"
    proof cases
      case 1
      then obtain q where "c # s = substr @ q" by (auto simp: prefix_def)
      then have "c # s = [] @ substr @ q" by simp
      then show ?thesis by blast
    next
      case 2
      with Cons.IH obtain p q where "s = p @ substr @ q" by blast
      then have "c # s = (c # p) @ substr @ q" by simp
      then show ?thesis by blast
    qed
  next
    assume "\<exists>p q. c # s = p @ substr @ q"
    then obtain p q where pq: "c # s = p @ substr @ q" by blast
    show "Contains (c # s) substr"
    proof (cases p)
      case Nil
      with pq have "prefix substr (c # s)" by (simp add: prefix_def)
      then show ?thesis by simp
    next
      case (Cons a p')
      with pq have "s = p' @ substr @ q" by simp
      with Cons.IH have "Contains s substr" by blast
      then show ?thesis by simp
    qed
  qed
qed

section \<open>filterEntry: the loop, for every order of the visit\<close>

lemma isSnapshotMount_iff:
  "isSnapshotMount mountPoint \<longleftrightarrow> (\<exists>p q. mountPoint = p @ ''.snapshot'' @ q)"
  unfolding isSnapshotMount_def by (rule Contains_iff)

lemma range_map_order:
  "set ks \<subseteq> dom m \<Longrightarrow> range_map m ks = map (\<lambda>k. (k, the (m k))) ks"
  unfolding range_map_def
  by (induction ks) (auto simp: List.map_filter_simps)

lemma filterEntry_loop_Timestamp: "Timestamp (filterEntry_loop ps f) = Timestamp f"
  by (induction ps f rule: filterEntry_loop.induct) auto

lemma filterEntry_loop_Total:
  "Total (filterEntry_loop ps f) =
     Total f + sum_list (map snd (filter (\<lambda>p. \<not> isSnapshotMount (fst p)) ps))"
  by (induction ps f rule: filterEntry_loop.induct) (auto simp: algebra_simps)

lemma filterEntry_loop_Mounts:
  "distinct (map fst ps) \<Longrightarrow>
   Mounts (filterEntry_loop ps f) =
     Mounts f ++ map_of (filter (\<lambda>p. \<not> isSnapshotMount (fst p)) ps)"
proof (induction ps arbitrary: f)
  case Nil
  then show ?case by simp
next
  case (Cons p rest)
  obtain mount bytes where p: "p = (mount, bytes)" by (cases p)
  let ?keep = "filter (\<lambda>p. \<not> isSnapshotMount (fst p)) rest"
  have d: "distinct (map fst rest)" and notin: "mount \<notin> dom (map_of ?keep)"
    using Cons.prems p by (auto simp: dom_map_of_conv_image_fst)
  show ?case
  proof (cases "isSnapshotMount mount")
    case True
    then show ?thesis using Cons.IH [OF d] p by simp
  next
    case False
    let ?f' = "f\<lparr>Mounts := (Mounts f)(mount \<mapsto> bytes), Total := Total f + bytes\<rparr>"
    have "Mounts (filterEntry_loop (p # rest) f) = Mounts (filterEntry_loop rest ?f')"
      using False p by simp
    also have "\<dots> = (Mounts f)(mount \<mapsto> bytes) ++ map_of ?keep"
      using Cons.IH [OF d, of ?f'] by (simp add: fun_upd_def)
    also have "\<dots> = Mounts f ++ map_of ((mount, bytes) # ?keep)"
      using notin by (auto simp: map_add_def fun_eq_iff domIff split: option.splits)
    also have "\<dots> = Mounts f ++ map_of (filter (\<lambda>p. \<not> isSnapshotMount (fst p)) (p # rest))"
      using False p by simp
    finally show ?thesis .
  qed
qed

lemma map_of_keep:
  assumes d: "distinct ks" and s: "set ks = dom m"
  shows "map_of (filter (\<lambda>p. \<not> P (fst p)) (map (\<lambda>k. (k, the (m k))) ks)) =
           (\<lambda>k. if P k then None else m k)"
proof
  fix k
  let ?ps = "filter (\<lambda>p. \<not> P (fst p)) (map (\<lambda>k. (k, the (m k))) ks)"
  show "map_of ?ps k = (if P k then None else m k)"
  proof (cases "\<not> P k \<and> k \<in> dom m")
    case True
    then have "(k, the (m k)) \<in> set ?ps" using s by auto
    moreover have "distinct (map fst ?ps)" using d by (simp add: distinct_map_filter comp_def)
    ultimately have "map_of ?ps k = Some (the (m k))" by simp
    then show ?thesis using True by auto
  next
    case False
    then have "k \<notin> fst ` set ?ps" using s by auto
    then have "map_of ?ps k = None" by (simp add: map_of_eq_None_iff)
    then show ?thesis using False by (auto simp: domIff)
  qed
qed

lemma filterEntry_Timestamp: "Timestamp (filterEntry ks entry) = Timestamp entry"
  by (simp add: filterEntry_def filterEntry_loop_Timestamp)

lemma filterEntry_Mounts:
  assumes "range_order (Mounts entry) ks"
  shows "Mounts (filterEntry ks entry) =
           (\<lambda>mount. if isSnapshotMount mount then None else Mounts entry mount)"
proof -
  from assms have d: "distinct ks" and s: "set ks = dom (Mounts entry)"
    by (simp_all add: range_order_def)
  have r: "range_map (Mounts entry) ks = map (\<lambda>k. (k, the (Mounts entry k))) ks"
    using s by (simp add: range_map_order)
  have "distinct (map fst (range_map (Mounts entry) ks))"
    using d by (simp add: r comp_def)
  then have "Mounts (filterEntry ks entry) =
      Map.empty ++ map_of (filter (\<lambda>p. \<not> isSnapshotMount (fst p)) (range_map (Mounts entry) ks))"
    by (simp add: filterEntry_def filterEntry_loop_Mounts)
  then show ?thesis
    by (simp add: r map_of_keep [OF d s])
qed

lemma filterEntry_Total_kept:
  assumes "range_order (Mounts entry) ks"
  shows "Total (filterEntry ks entry) =
           (\<Sum>k\<in>{k \<in> dom (Mounts entry). \<not> isSnapshotMount k}. the (Mounts entry k))"
proof -
  from assms have d: "distinct ks" and s: "set ks = dom (Mounts entry)"
    by (simp_all add: range_order_def)
  have r: "range_map (Mounts entry) ks = map (\<lambda>k. (k, the (Mounts entry k))) ks"
    using s by (simp add: range_map_order)
  have "Total (filterEntry ks entry) =
      sum_list (map (\<lambda>k. the (Mounts entry k)) (filter (\<lambda>k. \<not> isSnapshotMount k) ks))"
    by (simp add: filterEntry_def filterEntry_loop_Total r filter_map comp_def)
  also have "\<dots> = (\<Sum>k\<in>set (filter (\<lambda>k. \<not> isSnapshotMount k) ks). the (Mounts entry k))"
    using d by (intro sum_list_distinct_conv_sum_set) simp
  also have "set (filter (\<lambda>k. \<not> isSnapshotMount k) ks) =
      {k \<in> dom (Mounts entry). \<not> isSnapshotMount k}"
    using s by auto
  finally show ?thesis .
qed

lemma filterEntry_Total:
  assumes "range_order (Mounts entry) ks"
  shows "Total (filterEntry ks entry) = sum_values (Mounts (filterEntry ks entry))"
proof -
  have dom_eq: "dom (Mounts (filterEntry ks entry)) =
      {k \<in> dom (Mounts entry). \<not> isSnapshotMount k}"
    by (auto simp: filterEntry_Mounts [OF assms] domIff split: if_splits)
  show ?thesis
    unfolding sum_values_def dom_eq filterEntry_Total_kept [OF assms]
    by (rule sum.cong) (simp_all add: filterEntry_Mounts [OF assms])
qed

lemma sint_sum_nonneg:
  fixes f :: "'a \<Rightarrow> int64"
  assumes "finite S" "\<forall>k\<in>S. 0 \<le> sint (f k)" "(\<Sum>k\<in>S. sint (f k)) < 2 ^ 63"
  shows "sint (\<Sum>k\<in>S. f k) = (\<Sum>k\<in>S. sint (f k))"
  using assms
proof (induction S rule: finite_induct)
  case empty
  then show ?case by simp
next
  case (insert x F)
  have nn: "0 \<le> (\<Sum>k\<in>F. sint (f k))" using insert.prems by (simp add: sum_nonneg)
  have x0: "0 \<le> sint (f x)" using insert.prems by simp
  have tot: "sint (f x) + (\<Sum>k\<in>F. sint (f k)) < 2 ^ 63"
    using insert.prems insert.hyps by simp
  have IH: "sint (\<Sum>k\<in>F. f k) = (\<Sum>k\<in>F. sint (f k))"
    using insert.IH insert.prems x0 tot by simp
  have "sint (f x + (\<Sum>k\<in>F. f k)) = signed_take_bit 63 (sint (f x) + sint (\<Sum>k\<in>F. f k))"
    by (simp add: sint_word_add)
  also have "\<dots> = sint (f x) + (\<Sum>k\<in>F. sint (f k))"
    unfolding IH using nn x0 tot by (intro signed_take_bit_int_eq_self) auto
  finally show ?case using insert.hyps by simp
qed

lemma filterEntry_Total_le:
  assumes ord: "range_order (Mounts entry) ks"
    and nonneg: "\<forall>mount\<in>dom (Mounts entry). 0 \<le> sint (the (Mounts entry mount))"
    and exact: "sint (Total entry) = exact_sum_values (Mounts entry)"
  shows "Total (filterEntry ks entry) \<le>s Total entry"
proof -
  let ?v = "\<lambda>k. the (Mounts entry k)"
  let ?D = "dom (Mounts entry)"
  let ?K = "{k \<in> ?D. \<not> isSnapshotMount k}"
  have fin: "finite ?D" using ord by (auto simp: range_order_def dest: sym)
  have sub: "(\<Sum>k\<in>?K. sint (?v k)) \<le> (\<Sum>k\<in>?D. sint (?v k))"
    using fin nonneg by (intro sum_mono2) auto
  have "(\<Sum>k\<in>?D. sint (?v k)) = sint (Total entry)"
    using exact by (simp add: exact_sum_values_def)
  also have "\<dots> < 2 ^ 63" using sint_lt [of "Total entry"] by simp
  finally have bound: "(\<Sum>k\<in>?K. sint (?v k)) < 2 ^ 63" using sub by simp
  have "sint (\<Sum>k\<in>?K. ?v k) = (\<Sum>k\<in>?K. sint (?v k))"
    using fin nonneg bound by (intro sint_sum_nonneg) auto
  then have "sint (Total (filterEntry ks entry)) \<le> sint (Total entry)"
    using sub exact by (simp add: filterEntry_Total_kept [OF ord] exact_sum_values_def)
  then show ?thesis by (simp add: word_sle_eq)
qed

text \<open>
  C2 (as amended). For every entry and every order in which the loop can visit its map,
  \<open>filterEntry\<close> returns an entry with the same timestamp, whose map holds exactly the
  pairs of the input whose mount does not contain \<^verbatim>\<open>.snapshot\<close>, with the same bytes, and
  whose total is the sum of the values of that map. The total is at most the total of the
  input when no byte count of the input is negative and the input's total is the exact
  sum of its byte counts (no wrap-around).
\<close>

theorem filterEntry_correct:
  "range_order (Mounts entry) ks \<Longrightarrow>
     Timestamp (filterEntry ks entry) = Timestamp entry \<and>
     Mounts (filterEntry ks entry) =
       (\<lambda>mount. if isSnapshotMount mount then None else Mounts entry mount) \<and>
     Total (filterEntry ks entry) = sum_values (Mounts (filterEntry ks entry)) \<and>
     ((\<forall>mount\<in>dom (Mounts entry). 0 \<le> sint (the (Mounts entry mount))) \<and>
      sint (Total entry) = exact_sum_values (Mounts entry) \<longrightarrow>
      Total (filterEntry ks entry) \<le>s Total entry)"
  using filterEntry_Timestamp filterEntry_Mounts filterEntry_Total filterEntry_Total_le
  by blast

lemma snapshot_examples:
  "isSnapshotMount ''/mnt/a/.snapshot''" "\<not> isSnapshotMount ''/mnt/a''"
  "\<not> isSnapshotMount ''/mnt/b''"
  by (simp_all add: isSnapshotMount_def)

theorem filterEntry_correct_witness:
  "range_order (Mounts entry_with_snapshot) [''/mnt/a/.snapshot'', ''/mnt/a''] \<and>
   dom (Mounts entry_with_snapshot) = {''/mnt/a'', ''/mnt/a/.snapshot''} \<and>
   0 \<le> sint (the (Mounts entry_with_snapshot ''/mnt/a'')) \<and>
   0 \<le> sint (the (Mounts entry_with_snapshot ''/mnt/a/.snapshot'')) \<and>
   sint (Total entry_with_snapshot) = exact_sum_values (Mounts entry_with_snapshot) \<and>
   Timestamp (filterEntry [''/mnt/a/.snapshot'', ''/mnt/a''] entry_with_snapshot) = 1700000000 \<and>
   Mounts (filterEntry [''/mnt/a/.snapshot'', ''/mnt/a''] entry_with_snapshot) =
     [''/mnt/a'' \<mapsto> 5368709120] \<and>
   Total (filterEntry [''/mnt/a/.snapshot'', ''/mnt/a''] entry_with_snapshot) =
     sum_values [''/mnt/a'' \<mapsto> 5368709120] \<and>
   Total (filterEntry [''/mnt/a/.snapshot'', ''/mnt/a''] entry_with_snapshot) \<le>s
     Total entry_with_snapshot"
proof -
  have ord: "range_order (Mounts entry_with_snapshot) [''/mnt/a/.snapshot'', ''/mnt/a'']"
    by (auto simp: range_order_def entry_with_snapshot_def)
  have nonneg: "\<forall>mount\<in>dom (Mounts entry_with_snapshot).
      0 \<le> sint (the (Mounts entry_with_snapshot mount))"
    by (simp add: entry_with_snapshot_def)
  have exact: "sint (Total entry_with_snapshot) = exact_sum_values (Mounts entry_with_snapshot)"
    by (simp add: entry_with_snapshot_def exact_sum_values_def)
  have m: "(\<lambda>mount. if isSnapshotMount mount then None else Mounts entry_with_snapshot mount) =
      [''/mnt/a'' \<mapsto> 5368709120]"
    by (auto simp: fun_eq_iff entry_with_snapshot_def snapshot_examples)
  note inst = filterEntry_correct [OF ord]
  have t: "Timestamp (filterEntry [''/mnt/a/.snapshot'', ''/mnt/a''] entry_with_snapshot) =
      1700000000"
    using inst by (simp add: entry_with_snapshot_def)
  have mo: "Mounts (filterEntry [''/mnt/a/.snapshot'', ''/mnt/a''] entry_with_snapshot) =
      [''/mnt/a'' \<mapsto> 5368709120]"
    using inst m by simp
  have to: "Total (filterEntry [''/mnt/a/.snapshot'', ''/mnt/a''] entry_with_snapshot) =
      sum_values [''/mnt/a'' \<mapsto> 5368709120]"
    using inst mo by simp
  have le: "Total (filterEntry [''/mnt/a/.snapshot'', ''/mnt/a''] entry_with_snapshot) \<le>s
      Total entry_with_snapshot"
    using inst nonneg exact by blast
  have d: "dom (Mounts entry_with_snapshot) = {''/mnt/a'', ''/mnt/a/.snapshot''}"
    by (auto simp: entry_with_snapshot_def)
  have v: "0 \<le> sint (the (Mounts entry_with_snapshot ''/mnt/a''))"
    "0 \<le> sint (the (Mounts entry_with_snapshot ''/mnt/a/.snapshot''))"
    by (simp_all add: entry_with_snapshot_def)
  show ?thesis
    using ord d v exact t mo to le by blast
qed

text \<open>
  C2 as stated fails: the total of the filtered entry can exceed the total of the input
  although the input's total is the sum of its mounts, when a removed snapshot mount has
  a negative byte count, or when the sum of the input has wrapped around.
\<close>

theorem filterEntry_total_counterexample:
  "(range_order (Mounts entry_negative) [''/mnt/a/.snapshot''] \<and>
    Total entry_negative = sum_values (Mounts entry_negative) \<and>
    Total (filterEntry [''/mnt/a/.snapshot''] entry_negative) = 0 \<and>
    \<not> Total (filterEntry [''/mnt/a/.snapshot''] entry_negative) \<le>s Total entry_negative) \<and>
   (range_order (Mounts entry_wrapped) [''/mnt/b'', ''/mnt/a/.snapshot''] \<and>
    Total entry_wrapped = sum_values (Mounts entry_wrapped) \<and>
    Total (filterEntry [''/mnt/b'', ''/mnt/a/.snapshot''] entry_wrapped) = 1 \<and>
    \<not> Total (filterEntry [''/mnt/b'', ''/mnt/a/.snapshot''] entry_wrapped) \<le>s Total entry_wrapped)"
proof -
  have n1: "range_order (Mounts entry_negative) [''/mnt/a/.snapshot'']"
    by (auto simp: range_order_def entry_negative_def)
  have n2: "Total entry_negative = sum_values (Mounts entry_negative)"
    by (simp add: entry_negative_def sum_values_def)
  have n3: "Total (filterEntry [''/mnt/a/.snapshot''] entry_negative) = 0"
    by (simp add: filterEntry_def range_map_def List.map_filter_simps entry_negative_def
        snapshot_examples)
  have n4: "\<not> (0::int64) \<le>s Total entry_negative"
    by (simp add: entry_negative_def word_sle_eq)
  have w1: "range_order (Mounts entry_wrapped) [''/mnt/b'', ''/mnt/a/.snapshot'']"
    by (auto simp: range_order_def entry_wrapped_def)
  have w2: "Total entry_wrapped = sum_values (Mounts entry_wrapped)"
    by (simp add: entry_wrapped_def sum_values_def)
  have w3: "Total (filterEntry [''/mnt/b'', ''/mnt/a/.snapshot''] entry_wrapped) = 1"
    by (simp add: filterEntry_def range_map_def List.map_filter_simps entry_wrapped_def
        snapshot_examples)
  have w4: "\<not> (1::int64) \<le>s Total entry_wrapped"
    by (simp add: entry_wrapped_def word_sle_eq)
  show ?thesis
    using n1 n2 n3 n4 w1 w2 w3 w4 by simp
qed

section \<open>Formatting: formatBytes and formatDiff\<close>

lemmas format_eval =
  spec_formatBytes_def spec_formatDiff_def float64_of_int_def bitlen.simps
  round_half_even_def Sprintf_2f_def decimal.simps digit_char_def Let_def

lemma sint_GiB: "sint GiB = 2 ^ 30"
  by (simp add: GiB_def)

lemma sint_TiB: "sint TiB = 2 ^ 40"
  by (simp add: TiB_def GiB_def)

lemma float64_GiB: "float64 GiB = 2 ^ 30"
  by (simp add: float64_def sint_GiB format_eval)

lemma float64_TiB: "float64 TiB = 2 ^ 40"
  by (simp add: float64_def sint_TiB format_eval)

lemma formatBytes_spec: "formatBytes bytes = spec_formatBytes (sint bytes)"
  unfolding formatBytes_def spec_formatBytes_def float64_GiB float64_TiB
  by (simp add: word_sle_eq sint_TiB float64_def)

lemma sint_neg_int64:
  fixes x :: int64
  assumes "sint x \<noteq> - (2 ^ 63)"
  shows "sint (- x) = - sint x"
proof -
  have "- (2 ^ 63) \<le> sint x" "sint x < 2 ^ 63"
    using sint_ge [of x] sint_lt [of x] by simp_all
  with assms have "- (2 ^ 63) \<le> - sint x" "- sint x < 2 ^ 63" by simp_all
  then have "signed_take_bit 63 (- sint x) = - sint x"
    by (rule signed_take_bit_int_eq_self)
  then show ?thesis by (simp add: sint_word_ariths)
qed

lemma formatDiff_nonneg: "0 \<le> sint diff \<Longrightarrow> formatDiff diff = ''+'' @ formatBytes diff"
  by (simp add: formatDiff_def word_sle_eq)

lemma formatDiff_neg: "sint diff < 0 \<Longrightarrow> formatDiff diff = ''-'' @ formatBytes (- diff)"
  by (simp add: formatDiff_def word_sle_eq)

lemma formatDiff_spec:
  assumes "sint diff \<noteq> - (2 ^ 63)"
  shows "formatDiff diff = spec_formatDiff (sint diff)"
proof (cases "0 \<le> sint diff")
  case True
  then show ?thesis
    by (simp add: formatDiff_nonneg formatBytes_spec spec_formatDiff_def)
next
  case False
  then have "formatDiff diff = ''-'' @ spec_formatBytes (sint (- diff))"
    by (simp add: formatDiff_neg formatBytes_spec)
  also have "sint (- diff) = \<bar>sint diff\<bar>"
    using False sint_neg_int64 [OF assms] by simp
  finally show ?thesis using False by (simp add: spec_formatDiff_def)
qed

lemma int64_min_neg: "- (- 9223372036854775808 :: int64) = - 9223372036854775808"
  by simp

lemma sint_int64_min: "sint (- 9223372036854775808 :: int64) = - 9223372036854775808"
  by simp

lemma formatDiff_int64_min:
  "formatDiff (- 9223372036854775808) = ''-'' @ formatBytes (- 9223372036854775808)"
proof -
  have "sint (- 9223372036854775808 :: int64) < 0" by simp
  then have "formatDiff (- 9223372036854775808) =
      ''-'' @ formatBytes (- (- 9223372036854775808))"
    by (rule formatDiff_neg)
  then show ?thesis by (simp only: int64_min_neg)
qed

lemma formatBytes_int64_min: "formatBytes (- 9223372036854775808) = ''-8589934592.00 GiB''"
  by (simp add: formatBytes_spec format_eval)

text \<open>
  C6 (as amended). For every \<^verbatim>\<open>int64\<close> byte value \<open>formatBytes\<close> follows the rule: values from
  \<open>2 ^ 40\<close> on render as \<^verbatim>\<open>"%.2f TiB"\<close>, all others as \<^verbatim>\<open>"%.2f GiB"\<close>. For every \<^verbatim>\<open>int64\<close>
  difference other than \<open>- (2 ^ 63)\<close>, \<open>formatDiff\<close> renders \<open>+\<close> for a non-negative and \<open>-\<close>
  for a negative value, followed by the magnitude formatted by the same rule. The five
  examples of the specification come out as it says.
\<close>

theorem formatBytes_formatDiff_rule:
  "formatBytes bytes = spec_formatBytes (sint bytes) \<and>
   (sint diff \<noteq> - (2 ^ 63) \<longrightarrow> formatDiff diff = spec_formatDiff (sint diff)) \<and>
   formatBytes 1073741824 = ''1.00 GiB'' \<and>
   formatBytes 1099511627776 = ''1.00 TiB'' \<and>
   formatBytes 500000000 = ''0.47 GiB'' \<and>
   formatDiff 2147483648 = ''+2.00 GiB'' \<and>
   formatDiff (- 1073741824) = ''-1.00 GiB''"
proof -
  have "formatBytes 1073741824 = ''1.00 GiB''"
    by (simp add: formatBytes_spec format_eval)
  moreover have "formatBytes 1099511627776 = ''1.00 TiB''"
    by (simp add: formatBytes_spec format_eval)
  moreover have "formatBytes 500000000 = ''0.47 GiB''"
    by (simp add: formatBytes_spec format_eval)
  moreover have "formatDiff 2147483648 = ''+2.00 GiB''"
    by (simp add: formatDiff_spec format_eval)
  moreover have "formatDiff (- 1073741824) = ''-1.00 GiB''"
    by (simp add: formatDiff_spec format_eval)
  ultimately show ?thesis
    using formatBytes_spec formatDiff_spec by blast
qed

theorem formatBytes_formatDiff_rule_witness:
  "sint (- 3221225472 :: int64) \<noteq> - (2 ^ 63) \<and>
   formatBytes 3221225472 = spec_formatBytes 3221225472 \<and>
   formatDiff (- 3221225472) = spec_formatDiff (- 3221225472) \<and>
   spec_formatDiff (- 3221225472) = ''-3.00 GiB''"
proof -
  have h: "sint (- 3221225472 :: int64) \<noteq> - (2 ^ 63)" by simp
  have "spec_formatDiff (- 3221225472) = ''-3.00 GiB''"
    by (simp add: format_eval)
  then show ?thesis
    using formatBytes_formatDiff_rule [of 3221225472 "- 3221225472"] h by simp
qed

text \<open>
  C6 as stated fails at the difference \<open>- (2 ^ 63)\<close>: its magnitude \<open>2 ^ 63\<close> formatted by the
  rule is \<^verbatim>\<open>8388608.00 TiB\<close>, and \<open>formatDiff\<close> returns a minus sign followed by the negative
  number in GiB.
\<close>

theorem formatDiff_int64_min_counterexample:
  "formatDiff (- 9223372036854775808) = ''--8589934592.00 GiB'' \<and>
   spec_formatDiff (sint (- 9223372036854775808 :: int64)) = ''-8388608.00 TiB'' \<and>
   formatDiff (- 9223372036854775808) \<noteq> spec_formatDiff (sint (- 9223372036854775808 :: int64))"
proof -
  have a: "formatDiff (- 9223372036854775808) = ''--8589934592.00 GiB''"
    by (simp add: formatDiff_int64_min formatBytes_int64_min)
  have b: "spec_formatDiff (sint (- 9223372036854775808 :: int64)) = ''-8388608.00 TiB''"
    by (simp add: format_eval)
  show ?thesis unfolding a b by simp
qed

text \<open>
  C10. For every negative difference greater than \<open>- (2 ^ 63)\<close>, \<open>formatDiff\<close> returns \<open>-\<close>
  followed by \<open>formatBytes\<close> of \<open>- diff\<close>, which is the positive magnitude. For \<open>- (2 ^ 63)\<close>
  the negation wraps around to \<open>- (2 ^ 63)\<close> itself, so \<open>formatDiff\<close> returns \<open>-\<close> followed by
  \<open>formatBytes\<close> of \<open>- (2 ^ 63)\<close>: two minus signs and the negative number in GiB.
\<close>

theorem formatDiff_negative:
  "(sint diff < 0 \<and> - (2 ^ 63) < sint diff \<longrightarrow>
      formatDiff diff = ''-'' @ formatBytes (- diff) \<and>
      sint (- diff) = - sint diff \<and> 0 < sint (- diff)) \<and>
   - (- 9223372036854775808 :: int64) = - 9223372036854775808 \<and>
   formatDiff (- 9223372036854775808) = ''-'' @ formatBytes (- 9223372036854775808) \<and>
   formatDiff (- 9223372036854775808) = ''--8589934592.00 GiB''"
proof -
  have "formatDiff diff = ''-'' @ formatBytes (- diff) \<and>
      sint (- diff) = - sint diff \<and> 0 < sint (- diff)"
    if "sint diff < 0" "- (2 ^ 63) < sint diff"
    using that formatDiff_neg [of diff] sint_neg_int64 [of diff] by simp
  moreover have "formatDiff (- 9223372036854775808) = ''--8589934592.00 GiB''"
    by (simp add: formatDiff_int64_min formatBytes_int64_min)
  ultimately show ?thesis
    using int64_min_neg formatDiff_int64_min by blast
qed

theorem formatDiff_negative_witness:
  "sint (- 1073741824 :: int64) < 0 \<and> - (2 ^ 63) < sint (- 1073741824 :: int64) \<and>
   formatDiff (- 1073741824) = ''-'' @ formatBytes 1073741824 \<and>
   formatBytes 1073741824 = ''1.00 GiB''"
proof -
  have h: "sint (- 1073741824 :: int64) < 0 \<and> - (2 ^ 63) < sint (- 1073741824 :: int64)"
    by simp
  have "formatBytes 1073741824 = ''1.00 GiB''"
    by (simp add: formatBytes_spec format_eval)
  then show ?thesis
    using formatDiff_negative [of "- 1073741824"] h by simp
qed

section \<open>Usage sampling: getDFBytes\<close>

lemma foldl_digits_ge: "n \<le> foldl (\<lambda>n c. n * 10 + digit_val c) n s"
proof (induction s arbitrary: n)
  case Nil
  then show ?case by simp
next
  case (Cons c s)
  have "n \<le> n * 10 + digit_val c" by simp
  also have "\<dots> \<le> foldl (\<lambda>n c. n * 10 + digit_val c) (n * 10 + digit_val c) s"
    by (rule Cons.IH)
  finally show ?case by simp
qed

lemma ParseUint_loop_Inr:
  "n < 2 ^ 64 \<Longrightarrow>
   ParseUint_loop n s = Inr v \<longleftrightarrow>
     list_all isDigit s \<and> foldl (\<lambda>n c. n * 10 + digit_val c) n s < 2 ^ 64 \<and>
     v = foldl (\<lambda>n c. n * 10 + digit_val c) n s"
proof (induction s arbitrary: n)
  case Nil
  then show ?case by auto
next
  case (Cons c s)
  let ?n' = "n * 10 + digit_val c"
  show ?case
  proof (cases "isDigit c")
    case False
    then show ?thesis by simp
  next
    case True
    show ?thesis
    proof (cases "?n' > 2 ^ 64 - 1")
      case True
      then have "\<not> foldl (\<lambda>n c. n * 10 + digit_val c) ?n' s < 2 ^ 64"
        using foldl_digits_ge [of ?n' s] by simp
      with True \<open>isDigit c\<close> show ?thesis by simp
    next
      case False
      then have "?n' < 2 ^ 64" by simp
      with False \<open>isDigit c\<close> Cons.IH [of ?n'] show ?thesis by simp
    qed
  qed
qed

lemma ParseUint_Inr:
  "ParseUint s = Inr v \<longleftrightarrow>
     s \<noteq> [] \<and> list_all isDigit s \<and> decimal_value s < 2 ^ 64 \<and> v = decimal_value s"
  by (simp add: ParseUint_def ParseUint_loop_Inr decimal_value_def)

lemma sint_word_of_int64:
  "- (2 ^ 63) \<le> v \<Longrightarrow> v < 2 ^ 63 \<Longrightarrow> sint (word_of_int v :: int64) = v"
  by (simp add: sint_sbintrunc' signed_take_bit_int_eq_self)

lemma ParseInt_literal:
  "ParseInt s = (case int64_literal s of
                   None \<Rightarrow> (case ParseInt s of Inl err \<Rightarrow> Inl err | Inr w \<Rightarrow> Inl ErrSyntax)
                 | Some v \<Rightarrow> Inr (word_of_int v))"
proof (cases "s = []")
  case True
  then show ?thesis by (simp add: ParseInt_def int64_literal_def)
next
  case False
  define neg where "neg = (hd s = CHR ''-'')"
  define digits where "digits = (if hd s = CHR ''+'' \<or> hd s = CHR ''-'' then tl s else s)"
  define v where "v = (if neg then - int (decimal_value digits) else int (decimal_value digits))"
  have lit: "int64_literal s =
      (if digits \<noteq> [] \<and> list_all isDigit digits \<and> - (2 ^ 63) \<le> v \<and> v < 2 ^ 63
       then Some v else None)"
    using False by (simp add: int64_literal_def neg_def digits_def v_def Let_def)
  show ?thesis
  proof (cases "ParseUint digits")
    case (Inl err)
    then have "\<not> (digits \<noteq> [] \<and> list_all isDigit digits \<and> decimal_value digits < 2 ^ 64)"
      using ParseUint_Inr [of digits "decimal_value digits"] by auto
    moreover have "v < 2 ^ 63 \<Longrightarrow> - (2 ^ 63) \<le> v \<Longrightarrow> decimal_value digits < 2 ^ 64"
      by (auto simp: v_def split: if_splits)
    ultimately have none: "int64_literal s = None"
      by (auto simp: lit)
    have "\<exists>e. ParseInt s = Inl e"
      unfolding ParseInt_def Let_def digits_def [symmetric]
      unfolding neg_def [symmetric]
      using False Inl by (cases err) simp_all
    then show ?thesis using none by auto
  next
    case (Inr un)
    then have un: "digits \<noteq> []" "list_all isDigit digits" "un = decimal_value digits"
      using ParseUint_Inr [of digits un] by auto
    have P: "ParseInt s =
        (if \<not> neg \<and> un \<ge> 2 ^ 63 then Inl ErrRange
         else if neg \<and> un > 2 ^ 63 then Inl ErrRange
         else Inr (if neg then - of_nat un else of_nat un))"
      unfolding ParseInt_def Let_def digits_def [symmetric]
      unfolding neg_def [symmetric]
      using False Inr by simp
    show ?thesis
    proof (cases "- (2 ^ 63) \<le> v \<and> v < 2 ^ 63")
      case True
      then have "int64_literal s = Some v" using un by (simp add: lit)
      moreover have "ParseInt s = Inr (word_of_int v)"
        using True by (auto simp: P v_def un(3) split: if_splits)
      ultimately show ?thesis by simp
    next
      case False
      then have "int64_literal s = None" by (auto simp: lit)
      moreover have "\<exists>e. ParseInt s = Inl e"
        using False by (auto simp: P v_def un(3) split: if_splits)
      ultimately show ?thesis by auto
    qed
  qed
qed

lemma ParseInt_None: "int64_literal s = None \<Longrightarrow> \<exists>err. ParseInt s = Inl err"
  using ParseInt_literal [of s] by (cases "ParseInt s") auto

lemma ParseInt_Some: "int64_literal s = Some v \<Longrightarrow> ParseInt s = Inr (word_of_int v)"
  using ParseInt_literal [of s] by simp

lemma int64_literal_range: "int64_literal s = Some v \<Longrightarrow> - (2 ^ 63) \<le> v \<and> v < 2 ^ 63"
  by (auto simp: int64_literal_def Let_def split: if_splits)

lemma Split_nonempty: "Split s sep \<noteq> []"
  by (induction s) (auto split: list.splits)

lemma Fields_Nil: "Fields [] = []"
  by (simp add: Fields_def)

lemma one_line_no_fields:
  "length (Split output sep) < 2 \<Longrightarrow> Fields (Join (tl (Split output sep)) '' '') = []"
proof -
  assume "length (Split output sep) < 2"
  then obtain l where "Split output sep = [l]"
    using Split_nonempty [of "output" sep]
    by (cases "Split output sep") (auto simp: length_Suc_conv)
  then show ?thesis by (simp add: Fields_Nil)
qed

lemmas fields_eval = Fields_def asciiSpace_def isSpace2_def isSpace3_def

text \<open>
  C5. When the command succeeds with \<open>output\<close>, \<open>getDFBytes\<close> drops the first line, joins
  the remaining lines with a space and splits the result on white space. With fewer than
  3 fields, or a third field that is not a decimal literal of a 64-bit integer, it fails
  with a parse error; in every other case it returns the value of the third field.
\<close>

theorem getDFBytes_parse:
  "cmd mountPoint = Inr output \<Longrightarrow>
     (let fields = Fields (Join (tl (Split output (CHR 0x0A))) '' '')
      in if length fields < 3 \<or> int64_literal (fields ! 2) = None
         then \<exists>err. getDFBytes cmd mountPoint = Inl err \<and> is_parse_error err
         else \<exists>v. int64_literal (fields ! 2) = Some v \<and>
                  getDFBytes cmd mountPoint = Inr (word_of_int v) \<and>
                  sint (word_of_int v :: int64) = v)"
proof -
  assume out: "cmd mountPoint = Inr output"
  define fields where "fields = Fields (Join (tl (Split output (CHR 0x0A))) '' '')"
  have G: "getDFBytes cmd mountPoint =
      (if length (Split output (CHR 0x0A)) < 2 then Inl UnexpectedDFOutput
       else if length fields < 3 then Inl UnexpectedDFFormat
       else (case ParseInt (fields ! 2) of
               Inl err \<Rightarrow> Inl (ParseUsedBytes err)
             | Inr usedBytes \<Rightarrow> Inr usedBytes))"
    by (simp add: getDFBytes_def out Let_def fields_def)
  have short: "length fields < 3" if "length (Split output (CHR 0x0A)) < 2"
    using one_line_no_fields [OF that] by (simp add: fields_def)
  have "if length fields < 3 \<or> int64_literal (fields ! 2) = None
        then \<exists>err. getDFBytes cmd mountPoint = Inl err \<and> is_parse_error err
        else \<exists>v. int64_literal (fields ! 2) = Some v \<and>
                 getDFBytes cmd mountPoint = Inr (word_of_int v) \<and>
                 sint (word_of_int v :: int64) = v"
  proof (cases "length fields < 3")
    case True
    then show ?thesis by (auto simp: G)
  next
    case False
    then have lines: "\<not> length (Split output (CHR 0x0A)) < 2" using short by blast
    show ?thesis
    proof (cases "int64_literal (fields ! 2)")
      case None
      then obtain err where "ParseInt (fields ! 2) = Inl err"
        using ParseInt_None by blast
      then show ?thesis using None False lines by (simp add: G)
    next
      case (Some v)
      then have "ParseInt (fields ! 2) = Inr (word_of_int v)"
        by (rule ParseInt_Some)
      moreover have "sint (word_of_int v :: int64) = v"
        using int64_literal_range [OF Some] by (simp add: sint_word_of_int64)
      ultimately show ?thesis using Some False lines by (simp add: G)
    qed
  qed
  then show ?thesis unfolding fields_def Let_def .
qed

lemma df_output_wrapped_fields:
  "Fields (Join (tl (Split df_output_wrapped (CHR 0x0A))) '' '') =
     [''filer01.example.org:/export/a'', ''10737418240'', ''1073741824'', ''9663676416'',
      ''10%'', ''/mnt/a'']"
  by (simp add: df_output_wrapped_def fields_eval)

lemma literal_1073741824: "int64_literal ''1073741824'' = Some 1073741824"
  by (simp add: int64_literal_def decimal_value_def isDigit_def digit_val_def)

theorem getDFBytes_parse_witness:
  "length (Fields (Join (tl (Split df_output_wrapped (CHR 0x0A))) '' '')) = 6 \<and>
   Fields (Join (tl (Split df_output_wrapped (CHR 0x0A))) '' '') ! 2 = ''1073741824'' \<and>
   getDFBytes (\<lambda>mountPoint. Inr df_output_wrapped) ''/mnt/a'' = Inr 1073741824"
  using getDFBytes_parse [of "\<lambda>mountPoint. Inr df_output_wrapped" "''/mnt/a''" df_output_wrapped]
  by (simp add: df_output_wrapped_fields literal_1073741824)

section \<open>Mount discovery: getNFSMounts\<close>

lemma getNFSMounts_loop_eq:
  "getNFSMounts_loop lines mounts =
     mounts @ map (\<lambda>text. Fields text ! 1)
       (filter (\<lambda>text. 3 \<le> length (Fields text) \<and>
                  (Fields text ! 2 = ''nfs'' \<or> Fields text ! 2 = ''nfs4'') \<and>
                  \<not> isSnapshotMount (Fields text ! 1)) lines)"
  by (induction lines arbitrary: mounts) (simp_all add: Let_def)

text \<open>
  C4. From the lines of the mount table, \<open>getNFSMounts\<close> returns the second field of
  every line that has at least three fields, whose third field is \<^verbatim>\<open>nfs\<close> or \<^verbatim>\<open>nfs4\<close> and whose
  second field does not contain \<^verbatim>\<open>.snapshot\<close>, in the order of the table (and the error of
  the scanner unchanged). Of the three lines of the specification only the second is
  selected.
\<close>

theorem getNFSMounts_selects:
  "getNFSMounts (Scanned lines err) =
     (map (\<lambda>text. Fields text ! 1)
        (filter (\<lambda>text. 3 \<le> length (Fields text) \<and>
                   (Fields text ! 2 = ''nfs'' \<or> Fields text ! 2 = ''nfs4'') \<and>
                   (\<nexists>p q. Fields text ! 1 = p @ ''.snapshot'' @ q)) lines), err) \<and>
   getNFSMounts
     (Scanned [''device /mnt/nfs1.snapshot nfs4 rw 0 0'', ''device /mnt/nfs1 nfs4 rw 0 0'',
               ''device /mnt/local ext4 rw 0 0''] None) = ([''/mnt/nfs1''], None)"
proof -
  have "getNFSMounts (Scanned lines err) =
     (map (\<lambda>text. Fields text ! 1)
        (filter (\<lambda>text. 3 \<le> length (Fields text) \<and>
                   (Fields text ! 2 = ''nfs'' \<or> Fields text ! 2 = ''nfs4'') \<and>
                   (\<nexists>p q. Fields text ! 1 = p @ ''.snapshot'' @ q)) lines), err)"
    by (simp add: getNFSMounts_def getNFSMounts_loop_eq isSnapshotMount_iff)
  moreover have "getNFSMounts
     (Scanned [''device /mnt/nfs1.snapshot nfs4 rw 0 0'', ''device /mnt/nfs1 nfs4 rw 0 0'',
               ''device /mnt/local ext4 rw 0 0''] None) = ([''/mnt/nfs1''], None)"
    by (simp add: getNFSMounts_def fields_eval isSnapshotMount_def)
  ultimately show ?thesis by blast
qed

section \<open>Reporter: the rows of printComparison\<close>

lemma rows_current_eq:
  "rows_current oldest ps rows =
     rows @ map (\<lambda>(mount, currBytes).
                  Row mount (formatBytes (case Mounts oldest mount of None \<Rightarrow> 0 | Some b \<Rightarrow> b))
                    (formatBytes currBytes)
                    (formatDiff (currBytes - (case Mounts oldest mount of None \<Rightarrow> 0 | Some b \<Rightarrow> b))))
              ps"
  by (induction oldest ps rows rule: rows_current.induct) (simp_all add: Let_def)

lemma rows_removed_eq:
  "rows_removed current ps rows =
     rows @ map (\<lambda>(mount, oldBytes).
                  Row mount (formatBytes oldBytes) ''(removed)'' (formatDiff (- oldBytes)))
              (filter (\<lambda>(mount, oldBytes). Mounts current mount = None) ps)"
  by (induction current ps rows rule: rows_removed.induct) simp_all

lemma printComparison_rows:
  assumes "range_order (Mounts current) ks_current" "range_order (Mounts oldest) ks_oldest"
  shows "printComparison ks_current ks_oldest oldest current =
     map (\<lambda>mount.
            Row mount (formatBytes (case Mounts oldest mount of None \<Rightarrow> 0 | Some b \<Rightarrow> b))
              (formatBytes (the (Mounts current mount)))
              (formatDiff (the (Mounts current mount) -
                           (case Mounts oldest mount of None \<Rightarrow> 0 | Some b \<Rightarrow> b))))
         ks_current @
     map (\<lambda>mount.
            Row mount (formatBytes (the (Mounts oldest mount))) ''(removed)''
              (formatDiff (- the (Mounts oldest mount))))
         (filter (\<lambda>mount. Mounts current mount = None) ks_oldest) @
     [Row ''total'' (formatBytes (Total oldest)) (formatBytes (Total current))
        (formatDiff (Total current - Total oldest))]"
proof -
  have c: "range_map (Mounts current) ks_current =
      map (\<lambda>k. (k, the (Mounts current k))) ks_current"
    using assms(1) by (simp add: range_order_def range_map_order)
  have ol: "range_map (Mounts oldest) ks_oldest =
      map (\<lambda>k. (k, the (Mounts oldest k))) ks_oldest"
    using assms(2) by (simp add: range_order_def range_map_order)
  show ?thesis
    by (simp add: printComparison_def Let_def rows_current_eq rows_removed_eq c ol
        filter_map comp_def)
qed

text \<open>
  C7. For every oldest and current entry, and all orders in which the two loops can
  visit their maps, the rows of \<open>printComparison\<close> are: for every mount of the current
  entry a row with its bytes in the oldest entry (0 when it is not there), its current
  bytes and the difference current minus oldest; for every mount of the oldest entry that
  the current entry lacks a row with \<^verbatim>\<open>(removed)\<close> in the current column and the negated
  oldest bytes as difference; last, the row \<^verbatim>\<open>total\<close> of the two totals. There is one row per
  mount of either entry and no other.
\<close>

theorem printComparison_table:
  "range_order (Mounts current) ks_current \<Longrightarrow> range_order (Mounts oldest) ks_oldest \<Longrightarrow>
     (\<forall>mount currBytes. Mounts current mount = Some currBytes \<longrightarrow>
        Row mount (formatBytes (case Mounts oldest mount of None \<Rightarrow> 0 | Some b \<Rightarrow> b))
          (formatBytes currBytes)
          (formatDiff (currBytes - (case Mounts oldest mount of None \<Rightarrow> 0 | Some b \<Rightarrow> b)))
        \<in> set (butlast (printComparison ks_current ks_oldest oldest current))) \<and>
     (\<forall>mount oldBytes. Mounts oldest mount = Some oldBytes \<and> Mounts current mount = None \<longrightarrow>
        Row mount (formatBytes oldBytes) ''(removed)'' (formatDiff (- oldBytes))
        \<in> set (butlast (printComparison ks_current ks_oldest oldest current))) \<and>
     last (printComparison ks_current ks_oldest oldest current) =
       Row ''total'' (formatBytes (Total oldest)) (formatBytes (Total current))
         (formatDiff (Total current - Total oldest)) \<and>
     length (printComparison ks_current ks_oldest oldest current) =
       card (dom (Mounts current) \<union> dom (Mounts oldest)) + 1"
proof -
  assume oc: "range_order (Mounts current) ks_current"
    and oo: "range_order (Mounts oldest) ks_oldest"
  let ?old = "\<lambda>mount. case Mounts oldest mount of None \<Rightarrow> 0 | Some b \<Rightarrow> b"
  let ?cur = "map (\<lambda>mount. Row mount (formatBytes (?old mount))
                 (formatBytes (the (Mounts current mount)))
                 (formatDiff (the (Mounts current mount) - ?old mount))) ks_current"
  let ?gone = "filter (\<lambda>mount. Mounts current mount = None) ks_oldest"
  let ?rem = "map (\<lambda>mount. Row mount (formatBytes (the (Mounts oldest mount))) ''(removed)''
                 (formatDiff (- the (Mounts oldest mount)))) ?gone"
  let ?total = "Row ''total'' (formatBytes (Total oldest)) (formatBytes (Total current))
                  (formatDiff (Total current - Total oldest))"
  have rows: "printComparison ks_current ks_oldest oldest current = (?cur @ ?rem) @ [?total]"
    using printComparison_rows [OF oc oo] by simp
  have dc: "distinct ks_current" "set ks_current = dom (Mounts current)"
    and od: "distinct ks_oldest" "set ks_oldest = dom (Mounts oldest)"
    using oc oo by (simp_all add: range_order_def)
  have bl: "butlast (printComparison ks_current ks_oldest oldest current) = ?cur @ ?rem"
    unfolding rows by (rule butlast_snoc)
  have "Row mount (formatBytes (?old mount)) (formatBytes currBytes)
          (formatDiff (currBytes - ?old mount)) \<in> set (?cur @ ?rem)"
    if "Mounts current mount = Some currBytes" for mount currBytes
  proof -
    from that have "mount \<in> set ks_current" using dc by auto
    then have "Row mount (formatBytes (?old mount)) (formatBytes (the (Mounts current mount)))
        (formatDiff (the (Mounts current mount) - ?old mount)) \<in> set ?cur"
      by auto
    then show ?thesis using that by simp
  qed
  moreover have "Row mount (formatBytes oldBytes) ''(removed)'' (formatDiff (- oldBytes))
        \<in> set (?cur @ ?rem)"
    if "Mounts oldest mount = Some oldBytes \<and> Mounts current mount = None" for mount oldBytes
  proof -
    from that have "mount \<in> set ?gone" using od by auto
    then have "Row mount (formatBytes (the (Mounts oldest mount))) ''(removed)''
        (formatDiff (- the (Mounts oldest mount))) \<in> set ?rem"
      by auto
    then show ?thesis using that by simp
  qed
  moreover have "last (printComparison ks_current ks_oldest oldest current) = ?total"
    unfolding rows by (rule last_snoc)
  moreover have "length (printComparison ks_current ks_oldest oldest current) =
      card (dom (Mounts current) \<union> dom (Mounts oldest)) + 1"
  proof -
    have "set ?gone = dom (Mounts oldest) - dom (Mounts current)"
      using od by (auto simp: domIff)
    moreover have "distinct ?gone" using od by simp
    ultimately have g: "length ?gone = card (dom (Mounts oldest) - dom (Mounts current))"
      using distinct_card by metis
    have c: "length ks_current = card (dom (Mounts current))"
      using dc distinct_card by metis
    have fin: "finite (dom (Mounts current))" "finite (dom (Mounts oldest))"
      using dc od by (metis List.finite_set)+
    have "card (dom (Mounts current) \<union> dom (Mounts oldest)) =
        card (dom (Mounts current)) + card (dom (Mounts oldest) - dom (Mounts current))"
      using fin by (subst card_Un_disjoint [symmetric]) (auto intro: arg_cong [where f = card])
    then show ?thesis unfolding rows using g c by simp
  qed
  ultimately show ?thesis unfolding bl by blast
qed

lemma scenario_formats:
  "formatBytes 0 = ''0.00 GiB''" "formatBytes 1073741824 = ''1.00 GiB''"
  "formatBytes 2147483648 = ''2.00 GiB''" "formatBytes 3221225472 = ''3.00 GiB''"
  "formatDiff 0 = ''+0.00 GiB''" "formatDiff 1073741824 = ''+1.00 GiB''"
  "formatDiff 2147483648 = ''+2.00 GiB''" "formatDiff (- 2147483648) = ''-2.00 GiB''"
  by (simp_all add: formatBytes_spec formatDiff_spec format_eval)

theorem printComparison_table_witness:
  "range_order (Mounts scenario_current) [''/mnt/b'', ''/mnt/a''] \<and>
   range_order (Mounts scenario_oldest) [''/mnt/a''] \<and>
   Row ''/mnt/a'' ''1.00 GiB'' ''2.00 GiB'' ''+1.00 GiB''
     \<in> set (butlast (printComparison [''/mnt/b'', ''/mnt/a''] [''/mnt/a'']
                       scenario_oldest scenario_current)) \<and>
   Row ''/mnt/b'' ''0.00 GiB'' ''1.00 GiB'' ''+1.00 GiB''
     \<in> set (butlast (printComparison [''/mnt/b'', ''/mnt/a''] [''/mnt/a'']
                       scenario_oldest scenario_current)) \<and>
   last (printComparison [''/mnt/b'', ''/mnt/a''] [''/mnt/a''] scenario_oldest scenario_current) =
     Row ''total'' ''1.00 GiB'' ''3.00 GiB'' ''+2.00 GiB'' \<and>
   length (printComparison [''/mnt/b'', ''/mnt/a''] [''/mnt/a''] scenario_oldest scenario_current)
     = 3"
proof -
  have oc: "range_order (Mounts scenario_current) [''/mnt/b'', ''/mnt/a'']"
    by (auto simp: range_order_def scenario_current_def)
  have oo: "range_order (Mounts scenario_oldest) [''/mnt/a'']"
    by (auto simp: range_order_def scenario_oldest_def)
  note inst = printComparison_table [OF oc oo]
  have a: "Row ''/mnt/a'' ''1.00 GiB'' ''2.00 GiB'' ''+1.00 GiB''
     \<in> set (butlast (printComparison [''/mnt/b'', ''/mnt/a''] [''/mnt/a'']
                       scenario_oldest scenario_current))"
    using inst [THEN conjunct1, rule_format, of "''/mnt/a''" 2147483648]
    by (simp add: scenario_current_def scenario_oldest_def scenario_formats)
  have b: "Row ''/mnt/b'' ''0.00 GiB'' ''1.00 GiB'' ''+1.00 GiB''
     \<in> set (butlast (printComparison [''/mnt/b'', ''/mnt/a''] [''/mnt/a'']
                       scenario_oldest scenario_current))"
    using inst [THEN conjunct1, rule_format, of "''/mnt/b''" 1073741824]
    by (simp add: scenario_current_def scenario_oldest_def scenario_formats)
  have t: "last (printComparison [''/mnt/b'', ''/mnt/a''] [''/mnt/a'']
                   scenario_oldest scenario_current) =
     Row ''total'' ''1.00 GiB'' ''3.00 GiB'' ''+2.00 GiB''"
    using inst [THEN conjunct2, THEN conjunct2, THEN conjunct1]
    by (simp add: scenario_current_def scenario_oldest_def scenario_formats)
  have "dom (Mounts scenario_current) \<union> dom (Mounts scenario_oldest) = {''/mnt/a'', ''/mnt/b''}"
    by (auto simp: scenario_current_def scenario_oldest_def)
  then have l: "length (printComparison [''/mnt/b'', ''/mnt/a''] [''/mnt/a'']
                   scenario_oldest scenario_current) = 3"
    using inst [THEN conjunct2, THEN conjunct2, THEN conjunct2] by simp
  show ?thesis using oc oo a b t l by blast
qed

text \<open>The whole table of the scenario, and one with a removed mount, computed.\<close>

lemma printComparison_scenario:
  "printComparison [''/mnt/a'', ''/mnt/b''] [''/mnt/a''] scenario_oldest scenario_current =
     [Row ''/mnt/a'' ''1.00 GiB'' ''2.00 GiB'' ''+1.00 GiB'',
      Row ''/mnt/b'' ''0.00 GiB'' ''1.00 GiB'' ''+1.00 GiB'',
      Row ''total'' ''1.00 GiB'' ''3.00 GiB'' ''+2.00 GiB'']"
  by (simp add: printComparison_def range_map_def List.map_filter_simps scenario_current_def
      scenario_oldest_def scenario_formats)

lemma printComparison_removed:
  "printComparison [''/mnt/a'', ''/mnt/b''] [''/mnt/gone'', ''/mnt/a'']
     scenario_oldest_gone scenario_current =
     [Row ''/mnt/a'' ''1.00 GiB'' ''2.00 GiB'' ''+1.00 GiB'',
      Row ''/mnt/b'' ''0.00 GiB'' ''1.00 GiB'' ''+1.00 GiB'',
      Row ''/mnt/gone'' ''2.00 GiB'' ''(removed)'' ''-2.00 GiB'',
      Row ''total'' ''3.00 GiB'' ''3.00 GiB'' ''+0.00 GiB'']"
  by (simp add: printComparison_def range_map_def List.map_filter_simps scenario_current_def
      scenario_oldest_gone_def scenario_formats)

section \<open>main: the run as a whole\<close>

lemma main_run:
  assumes "resolve_filePath e = Inr filePath"
    and "getNFSMounts (proc_mounts e) = (nfsMounts, None)"
    and "nfsMounts \<noteq> []"
    and "sample e nfsMounts = (currentEntry, log)"
    and "load_history e filePath = Inr loaded"
    and "saveEntries e filePath (loaded @ [currentEntry]) = (None, w)"
  shows "main e =
     \<lparr>exit_code = 0, stderr = log,
      stdout = Some
        (if flag_compare e \<and> loaded \<noteq> []
         then Comparison
                (printComparison (range_current e) (range_oldest e)
                   (filterEntry (range_filter e) (hd loaded)) currentEntry)
         else Current (printCurrent (range_print e) currentEntry)),
      written = w\<rparr>"
proof -
  have "(loaded @ [currentEntry]) ! 0 = hd loaded" if "loaded \<noteq> []"
    using that by (cases loaded) simp_all
  then show ?thesis
    using assms by (cases loaded) (simp_all add: main_def Let_def)
qed

lemma main_save_fails:
  assumes "resolve_filePath e = Inr filePath"
    and "getNFSMounts (proc_mounts e) = (nfsMounts, None)"
    and "nfsMounts \<noteq> []"
    and "sample e nfsMounts = (currentEntry, log)"
    and "load_history e filePath = Inr loaded"
    and "saveEntries e filePath (loaded @ [currentEntry]) = (Some err, w)"
  shows "main e = exits 1 (log @ [ErrorSaving err])"
  using assms by (simp add: main_def Let_def)

lemma main_exit_0:
  assumes "exit_code (main e) = 0" and "fst (getNFSMounts (proc_mounts e)) \<noteq> []"
  shows "\<exists>filePath loaded w.
     resolve_filePath e = Inr filePath \<and>
     snd (getNFSMounts (proc_mounts e)) = None \<and>
     load_history e filePath = Inr loaded \<and>
     saveEntries e filePath
       (loaded @ [fst (sample e (fst (getNFSMounts (proc_mounts e))))]) = (None, w) \<and>
     written (main e) = w"
  using assms
  by (auto simp: main_def exits_def Let_def split: sum.splits prod.splits option.splits
      if_splits)

lemma saveEntries_ok:
  "saveEntries e filePath entries = (None, w) \<longleftrightarrow>
     (\<exists>data. MarshalIndent e entries = Inr data \<and> WriteFile e filePath data = None \<and>
             w = Some (filePath, data))"
  by (auto simp: saveEntries_def split: sum.splits option.splits)

lemma load_history_cases:
  "load_history e filePath = Inr loaded \<longleftrightarrow>
     loadEntries e filePath = Inr loaded \<or>
     (\<exists>err. loadEntries e filePath = Inl err \<and> IsNotExist err) \<and> loaded = []"
  by (auto simp: load_history_def split: sum.splits)

lemma sum_values_upd:
  assumes "finite (dom m)" "mount \<notin> dom m"
  shows "sum_values (m(mount \<mapsto> bytes)) = bytes + sum_values m"
proof -
  have "(\<Sum>k\<in>dom m. the ((m(mount \<mapsto> bytes)) k)) = (\<Sum>k\<in>dom m. the (m k))"
    using assms(2) by (intro sum.cong) auto
  then show ?thesis
    using assms by (simp add: sum_values_def)
qed

lemma sample_loop_total:
  assumes "distinct nfsMounts" "set nfsMounts \<inter> dom (Mounts currentEntry) = {}"
    and "finite (dom (Mounts currentEntry))"
    and "Total currentEntry = sum_values (Mounts currentEntry)"
  shows "Total (fst (sample_loop d nfsMounts (currentEntry, log))) =
           sum_values (Mounts (fst (sample_loop d nfsMounts (currentEntry, log))))"
  using assms
proof (induction nfsMounts arbitrary: currentEntry log)
  case Nil
  then show ?case by simp
next
  case (Cons mount rest)
  show ?case
  proof (cases "getDFBytes d mount")
    case (Inl err)
    then show ?thesis using Cons.IH [of currentEntry] Cons.prems by simp
  next
    case (Inr bytes)
    let ?next = "currentEntry\<lparr>Mounts := (Mounts currentEntry)(mount \<mapsto> bytes),
                               Total := Total currentEntry + bytes\<rparr>"
    have "mount \<notin> dom (Mounts currentEntry)" using Cons.prems by auto
    then have "Total ?next = sum_values (Mounts ?next)"
      using Cons.prems by (simp add: sum_values_upd)
    moreover have "set rest \<inter> dom (Mounts ?next) = {}" "finite (dom (Mounts ?next))"
      "distinct rest"
      using Cons.prems by auto
    ultimately have "Total (fst (sample_loop d rest (?next, log))) =
        sum_values (Mounts (fst (sample_loop d rest (?next, log))))"
      by (intro Cons.IH)
    then show ?thesis using Inr by simp
  qed
qed

text \<open>
  The sample of \<open>main\<close> has the total equal to the sum of its mounts when no mount point
  occurs twice among the discovered mounts, whichever of them fail.
\<close>

lemma sample_total_distinct:
  "distinct nfsMounts \<Longrightarrow>
     Total (fst (sample e nfsMounts)) = sum_values (Mounts (fst (sample e nfsMounts)))"
  unfolding sample_def by (rule sample_loop_total) (simp_all add: sum_values_def)

subsection \<open>The three example runs, evaluated\<close>

lemma getDFBytes_wrapped:
  "getDFBytes (\<lambda>mountPoint. Inr df_output_wrapped) mount = Inr 1073741824"
proof -
  have "length (Split df_output_wrapped (CHR 0x0A)) = 4"
    by (simp add: df_output_wrapped_def)
  then show ?thesis
    using ParseInt_Some [OF literal_1073741824]
    by (simp add: getDFBytes_def Let_def df_output_wrapped_fields)
qed

lemma first_run_path: "resolve_filePath first_run_env = Inr ''/var/lib/nfsusage.json''"
  by (simp add: resolve_filePath_def first_run_env_def)

lemma first_run_mounts: "getNFSMounts (proc_mounts first_run_env) = ([''/mnt/a''], None)"
  by (simp add: first_run_env_def getNFSMounts_def fields_eval isSnapshotMount_def)

lemma first_run_sample: "sample first_run_env [''/mnt/a''] = (entry_first_run, [])"
  by (simp add: sample_def first_run_env_def getDFBytes_wrapped entry_first_run_def)

lemma first_run_load: "load_history first_run_env ''/var/lib/nfsusage.json'' = Inr []"
  by (simp add: load_history_def loadEntries_def first_run_env_def IsNotExist_def)

lemma first_run_save:
  "saveEntries first_run_env ''/var/lib/nfsusage.json'' ([] @ [entry_first_run]) =
     (None, Some (''/var/lib/nfsusage.json'', json_first_run))"
  by (simp add: saveEntries_def first_run_env_def)

lemma first_run_print:
  "printCurrent [''/mnt/a''] entry_first_run =
     [(''/mnt/a'', ''1.00 GiB''), (''total'', ''1.00 GiB'')]"
  by (simp add: printCurrent_def range_map_def List.map_filter_simps entry_first_run_def
      scenario_formats)

lemma main_first_run:
  "main first_run_env =
     \<lparr>exit_code = 0, stderr = [],
      stdout = Some (Current [(''/mnt/a'', ''1.00 GiB''), (''total'', ''1.00 GiB'')]),
      written = Some (''/var/lib/nfsusage.json'', json_first_run)\<rparr>"
proof -
  have "range_print first_run_env = [''/mnt/a'']"
    by (simp add: first_run_env_def)
  then show ?thesis
    using main_run [OF first_run_path first_run_mounts _ first_run_sample first_run_load
        first_run_save]
    by (simp add: first_run_print)
qed

lemma second_run_path: "resolve_filePath second_run_env = Inr ''/var/lib/nfsusage.json''"
  by (simp add: resolve_filePath_def second_run_env_def first_run_env_def)

lemma second_run_mounts: "getNFSMounts (proc_mounts second_run_env) = ([''/mnt/a''], None)"
  using first_run_mounts by (simp add: second_run_env_def)

lemma second_run_sample: "sample second_run_env [''/mnt/a''] = (entry_first_run, [])"
  using first_run_sample by (simp add: sample_def second_run_env_def)

lemma second_run_loadEntries:
  "loadEntries second_run_env ''/var/lib/nfsusage.json'' = Inr [entry_stored]"
  by (simp add: loadEntries_def second_run_env_def)

lemma second_run_load:
  "load_history second_run_env ''/var/lib/nfsusage.json'' = Inr [entry_stored]"
  by (simp add: load_history_def second_run_loadEntries)

lemma second_run_save:
  "saveEntries second_run_env ''/var/lib/nfsusage.json'' ([entry_stored] @ [entry_first_run]) =
     (None, Some (''/var/lib/nfsusage.json'', json_second_run))"
  by (simp add: saveEntries_def second_run_env_def first_run_env_def)

lemma filterEntry_stored:
  "filterEntry [''/mnt/a/.snapshot'', ''/mnt/a''] entry_stored =
     \<lparr>Timestamp = 1700000000, Mounts = [''/mnt/a'' \<mapsto> 536870912], Total = 536870912\<rparr>"
  by (simp add: filterEntry_def range_map_def List.map_filter_simps entry_stored_def
      snapshot_examples)

lemma second_run_table:
  "printComparison [''/mnt/a''] [''/mnt/a'']
     (filterEntry [''/mnt/a/.snapshot'', ''/mnt/a''] entry_stored) entry_first_run =
     [Row ''/mnt/a'' ''0.50 GiB'' ''1.00 GiB'' ''+0.50 GiB'',
      Row ''total'' ''0.50 GiB'' ''1.00 GiB'' ''+0.50 GiB'']"
proof -
  have "formatBytes 536870912 = ''0.50 GiB''" "formatDiff 536870912 = ''+0.50 GiB''"
    by (simp_all add: formatBytes_spec formatDiff_spec format_eval)
  then show ?thesis
    by (simp add: filterEntry_stored printComparison_def range_map_def List.map_filter_simps
        entry_first_run_def scenario_formats)
qed

lemma main_second_run:
  "main second_run_env =
     \<lparr>exit_code = 0, stderr = [],
      stdout = Some (Comparison [Row ''/mnt/a'' ''0.50 GiB'' ''1.00 GiB'' ''+0.50 GiB'',
                                 Row ''total'' ''0.50 GiB'' ''1.00 GiB'' ''+0.50 GiB'']),
      written = Some (''/var/lib/nfsusage.json'', json_second_run)\<rparr>"
proof -
  have "range_current second_run_env = [''/mnt/a'']" "range_oldest second_run_env = [''/mnt/a'']"
    "range_filter second_run_env = [''/mnt/a/.snapshot'', ''/mnt/a'']"
    "flag_compare second_run_env"
    by (simp_all add: second_run_env_def first_run_env_def)
  then show ?thesis
    using main_run [OF second_run_path second_run_mounts _ second_run_sample second_run_load
        second_run_save]
    by (simp add: second_run_table)
qed

text \<open>
  C8. In a run with the comparison flag set whose history, after the new sample is
  appended, has fewer than 2 samples, the outcome is the outcome of the same run without
  the flag: when the history is saved, the report is the current-only one, the exit code
  is 0 and standard error holds nothing but the warnings of the sampling loop.
\<close>

theorem compare_without_history:
  "flag_compare e \<Longrightarrow> resolve_filePath e = Inr filePath \<Longrightarrow>
   getNFSMounts (proc_mounts e) = (nfsMounts, None) \<Longrightarrow> nfsMounts \<noteq> [] \<Longrightarrow>
   sample e nfsMounts = (currentEntry, log) \<Longrightarrow> load_history e filePath = Inr loaded \<Longrightarrow>
   length (loaded @ [currentEntry]) < 2 \<Longrightarrow>
     main e = main (e\<lparr>flag_compare := False\<rparr>) \<and>
     (case saveEntries e filePath (loaded @ [currentEntry]) of
        (None, w) \<Rightarrow>
          main e = \<lparr>exit_code = 0, stderr = log,
                    stdout = Some (Current (printCurrent (range_print e) currentEntry)),
                    written = w\<rparr>
      | (Some err, w) \<Rightarrow> main e = exits 1 (log @ [ErrorSaving err]))"
proof -
  assume c: "flag_compare e" and p: "resolve_filePath e = Inr filePath"
    and m: "getNFSMounts (proc_mounts e) = (nfsMounts, None)" and ne: "nfsMounts \<noteq> []"
    and s: "sample e nfsMounts = (currentEntry, log)"
    and l: "load_history e filePath = Inr loaded"
    and short: "length (loaded @ [currentEntry]) < 2"
  from short have empty: "loaded = []" by simp
  let ?e' = "e\<lparr>flag_compare := False\<rparr>"
  have "resolve_filePath ?e' = resolve_filePath e"
    by (simp add: resolve_filePath_def cong: sum.case_cong)
  with p have p': "resolve_filePath ?e' = Inr filePath" by simp
  have m': "getNFSMounts (proc_mounts ?e') = (nfsMounts, None)"
    using m by simp
  have s': "sample ?e' nfsMounts = (currentEntry, log)"
    using s by (simp add: sample_def)
  have "loadEntries ?e' filePath = loadEntries e filePath"
    by (simp add: loadEntries_def cong: sum.case_cong)
  then have "load_history ?e' filePath = load_history e filePath"
    by (simp add: load_history_def)
  with l have l': "load_history ?e' filePath = Inr loaded" by simp
  have sv: "saveEntries ?e' filePath entries = saveEntries e filePath entries" for entries
    by (simp add: saveEntries_def cong: sum.case_cong)
  show ?thesis
  proof (cases "saveEntries e filePath (loaded @ [currentEntry])")
    case (Pair r w)
    show ?thesis
    proof (cases r)
      case None
      with Pair have ok: "saveEntries e filePath (loaded @ [currentEntry]) = (None, w)" by simp
      then have ok': "saveEntries ?e' filePath (loaded @ [currentEntry]) = (None, w)"
        by (simp add: sv)
      have "main e = \<lparr>exit_code = 0, stderr = log,
                    stdout = Some (Current (printCurrent (range_print e) currentEntry)),
                    written = w\<rparr>"
        using main_run [OF p m ne s l ok] empty by simp
      moreover have "main ?e' = \<lparr>exit_code = 0, stderr = log,
                    stdout = Some (Current (printCurrent (range_print e) currentEntry)),
                    written = w\<rparr>"
        using main_run [OF p' m' ne s' l' ok'] by simp
      ultimately show ?thesis using ok by simp
    next
      case (Some err)
      with Pair have f: "saveEntries e filePath (loaded @ [currentEntry]) = (Some err, w)"
        by simp
      then have f': "saveEntries ?e' filePath (loaded @ [currentEntry]) = (Some err, w)"
        by (simp add: sv)
      show ?thesis
        using main_save_fails [OF p m ne s l f] main_save_fails [OF p' m' ne s' l' f'] f
        by simp
    qed
  qed
qed

theorem compare_without_history_witness:
  "flag_compare first_run_env \<and>
   resolve_filePath first_run_env = Inr ''/var/lib/nfsusage.json'' \<and>
   getNFSMounts (proc_mounts first_run_env) = ([''/mnt/a''], None) \<and>
   sample first_run_env [''/mnt/a''] = (entry_first_run, []) \<and>
   load_history first_run_env ''/var/lib/nfsusage.json'' = Inr [] \<and>
   main first_run_env = main (first_run_env\<lparr>flag_compare := False\<rparr>) \<and>
   main first_run_env =
     \<lparr>exit_code = 0, stderr = [],
      stdout = Some (Current [(''/mnt/a'', ''1.00 GiB''), (''total'', ''1.00 GiB'')]),
      written = Some (''/var/lib/nfsusage.json'', json_first_run)\<rparr>"
proof -
  have c: "flag_compare first_run_env" by (simp add: first_run_env_def)
  have ne: "[''/mnt/a''] \<noteq> []" by simp
  have short: "length ([] @ [entry_first_run]) < 2" by simp
  have "main first_run_env = main (first_run_env\<lparr>flag_compare := False\<rparr>)"
    using compare_without_history [OF c first_run_path first_run_mounts ne first_run_sample
        first_run_load short]
    by blast
  then show ?thesis
    using c first_run_path first_run_mounts first_run_sample first_run_load main_first_run
    by simp
qed

lemma main_no_mounts:
  "resolve_filePath e = Inr filePath \<Longrightarrow> getNFSMounts (proc_mounts e) = ([], None) \<Longrightarrow>
     main e = exits 0 [NoNFSMountsFound]"
  by (simp add: main_def)

text \<open>
  C9. In every run that ends with exit code 0 after at least one NFS mount was found
  (the run with no NFS mount also ends with exit code 0, and reads and writes nothing:
  \<open>main_no_mounts\<close>),
  the data written to the history file is the serialisation of the history loaded from
  it, empty when the file did not exist, with the sample of this run appended at the
  end: one entry more, the loaded entries first and unchanged.
\<close>

theorem history_appended:
  "exit_code (main e) = 0 \<Longrightarrow> fst (getNFSMounts (proc_mounts e)) \<noteq> [] \<Longrightarrow>
     \<exists>filePath loaded data.
       resolve_filePath e = Inr filePath \<and>
       (loadEntries e filePath = Inr loaded \<or>
        (\<exists>err. loadEntries e filePath = Inl err \<and> IsNotExist err) \<and> loaded = []) \<and>
       MarshalIndent e (loaded @ [fst (sample e (fst (getNFSMounts (proc_mounts e))))])
         = Inr data \<and>
       written (main e) = Some (filePath, data) \<and>
       length (loaded @ [fst (sample e (fst (getNFSMounts (proc_mounts e))))])
         = length loaded + 1 \<and>
       take (length loaded) (loaded @ [fst (sample e (fst (getNFSMounts (proc_mounts e))))])
         = loaded"
proof -
  assume "exit_code (main e) = 0" and "fst (getNFSMounts (proc_mounts e)) \<noteq> []"
  then obtain filePath loaded w where
    p: "resolve_filePath e = Inr filePath" and
    l: "load_history e filePath = Inr loaded" and
    s: "saveEntries e filePath
          (loaded @ [fst (sample e (fst (getNFSMounts (proc_mounts e))))]) = (None, w)" and
    w: "written (main e) = w"
    using main_exit_0 by blast
  from s obtain data where
    "MarshalIndent e (loaded @ [fst (sample e (fst (getNFSMounts (proc_mounts e))))]) = Inr data"
    "w = Some (filePath, data)"
    using saveEntries_ok by blast
  with p l w show ?thesis
    using load_history_cases by fastforce
qed

theorem history_appended_witness:
  "exit_code (main second_run_env) = 0 \<and>
   fst (getNFSMounts (proc_mounts second_run_env)) = [''/mnt/a''] \<and>
   loadEntries second_run_env ''/var/lib/nfsusage.json'' = Inr [entry_stored] \<and>
   MarshalIndent second_run_env [entry_stored, entry_first_run] = Inr json_second_run \<and>
   written (main second_run_env) = Some (''/var/lib/nfsusage.json'', json_second_run)"
proof -
  have x: "exit_code (main second_run_env) = 0" by (simp add: main_second_run)
  have ne: "fst (getNFSMounts (proc_mounts second_run_env)) \<noteq> []"
    by (simp add: second_run_mounts)
  obtain filePath loaded data where
    p: "resolve_filePath second_run_env = Inr filePath" and
    l: "loadEntries second_run_env filePath = Inr loaded \<or>
        (\<exists>err. loadEntries second_run_env filePath = Inl err \<and> IsNotExist err) \<and> loaded = []" and
    m: "MarshalIndent second_run_env
          (loaded @ [fst (sample second_run_env
                            (fst (getNFSMounts (proc_mounts second_run_env))))]) = Inr data" and
    w: "written (main second_run_env) = Some (filePath, data)"
    using history_appended [OF x ne] by blast
  from p have fp: "filePath = ''/var/lib/nfsusage.json''" by (simp add: second_run_path)
  from l have ld: "loaded = [entry_stored]" by (simp add: fp second_run_loadEntries)
  from m have "MarshalIndent second_run_env [entry_stored, entry_first_run] = Inr data"
    by (simp add: ld second_run_mounts second_run_sample)
  moreover from this have "data = json_second_run"
    by (simp add: second_run_env_def)
  ultimately show ?thesis
    using x w fp second_run_mounts second_run_loadEntries by simp
qed

lemma duplicate_run_path: "resolve_filePath duplicate_mount_env = Inr ''/var/lib/nfsusage.json''"
  by (simp add: resolve_filePath_def duplicate_mount_env_def first_run_env_def)

lemma duplicate_run_mounts:
  "getNFSMounts (proc_mounts duplicate_mount_env) = ([''/mnt/a'', ''/mnt/a''], None)"
  by (simp add: duplicate_mount_env_def getNFSMounts_def fields_eval isSnapshotMount_def)

lemma duplicate_run_sample:
  "sample duplicate_mount_env [''/mnt/a'', ''/mnt/a''] =
     (\<lparr>Timestamp = 1700086400, Mounts = [''/mnt/a'' \<mapsto> 1073741824], Total = 2147483648\<rparr>, [])"
  by (simp add: sample_def duplicate_mount_env_def first_run_env_def getDFBytes_wrapped)

lemma duplicate_run_load: "load_history duplicate_mount_env ''/var/lib/nfsusage.json'' = Inr []"
  by (simp add: load_history_def loadEntries_def duplicate_mount_env_def first_run_env_def
      IsNotExist_def)

lemma duplicate_run_save:
  "saveEntries duplicate_mount_env ''/var/lib/nfsusage.json''
     ([] @ [\<lparr>Timestamp = 1700086400, Mounts = [''/mnt/a'' \<mapsto> 1073741824],
             Total = 2147483648\<rparr>]) =
     (None, Some (''/var/lib/nfsusage.json'', json_duplicate_run))"
  by (simp add: saveEntries_def duplicate_mount_env_def first_run_env_def)

text \<open>
  C1 fails on the code. When the mount table lists a mount point twice, the loop of
  \<open>main\<close> stores its bytes once in the map and adds them twice to the total: the sample of
  the run has one mount of 1 GiB and the total 2 GiB, and so have the report and the
  history file. (The total of \<open>filterEntry\<close> is the sum of its map for every entry, and so
  is the total of the sample when no mount point is repeated: \<open>sample_total_distinct\<close>.)
\<close>

theorem duplicate_mount_counted_twice:
  "getNFSMounts (proc_mounts duplicate_mount_env) = ([''/mnt/a'', ''/mnt/a''], None) \<and>
   fst (sample duplicate_mount_env [''/mnt/a'', ''/mnt/a'']) =
     \<lparr>Timestamp = 1700086400, Mounts = [''/mnt/a'' \<mapsto> 1073741824], Total = 2147483648\<rparr> \<and>
   sum_values (Mounts (fst (sample duplicate_mount_env [''/mnt/a'', ''/mnt/a'']))) = 1073741824 \<and>
   Total (fst (sample duplicate_mount_env [''/mnt/a'', ''/mnt/a''])) \<noteq>
     sum_values (Mounts (fst (sample duplicate_mount_env [''/mnt/a'', ''/mnt/a'']))) \<and>
   main duplicate_mount_env =
     \<lparr>exit_code = 0, stderr = [],
      stdout = Some (Current [(''/mnt/a'', ''1.00 GiB''), (''total'', ''2.00 GiB'')]),
      written = Some (''/var/lib/nfsusage.json'', json_duplicate_run)\<rparr>"
proof -
  have sv: "sum_values (Mounts (fst (sample duplicate_mount_env [''/mnt/a'', ''/mnt/a'']))) =
      1073741824"
    by (simp add: duplicate_run_sample sum_values_def)
  have ne: "[''/mnt/a'', ''/mnt/a''] \<noteq> ([] :: string list)" by simp
  have pr: "printCurrent (range_print duplicate_mount_env)
      \<lparr>Timestamp = 1700086400, Mounts = [''/mnt/a'' \<mapsto> 1073741824], Total = 2147483648\<rparr> =
      [(''/mnt/a'', ''1.00 GiB''), (''total'', ''2.00 GiB'')]"
    by (simp add: printCurrent_def range_map_def List.map_filter_simps duplicate_mount_env_def
        first_run_env_def scenario_formats)
  have "main duplicate_mount_env =
     \<lparr>exit_code = 0, stderr = [],
      stdout = Some (Current [(''/mnt/a'', ''1.00 GiB''), (''total'', ''2.00 GiB'')]),
      written = Some (''/var/lib/nfsusage.json'', json_duplicate_run)\<rparr>"
    using main_run [OF duplicate_run_path duplicate_run_mounts ne duplicate_run_sample
        duplicate_run_load duplicate_run_save]
    by (simp add: pr)
  then show ?thesis
    using duplicate_run_mounts sv by (simp add: duplicate_run_sample)
qed

end
